theory Spec2Isabelle
  imports Main "HOL-Library.Sublist"
begin

section \<open>JavaScript values\<close>

text \<open>
  The automation engine (\<^verbatim>\<open>services/automation.service.ts\<close>) handles untyped
  data: the event ctx and the rule configuration are both \<^verbatim>\<open>any\<close>. The values
  that reach it are strings, integers read from the database, booleans, \<^verbatim>\<open>null\<close>
  and \<^verbatim>\<open>undefined\<close>. Strings are lists of code units; times are integers, the
  milliseconds of a JavaScript \<^verbatim>\<open>Date\<close>.
\<close>

datatype jsval = JUndefined | JNull | JBool bool | JNum int | JStr string

text \<open>
  An object is the list of its own properties in the order \<^verbatim>\<open>Object.keys\<close>
  enumerates them; \<^verbatim>\<open>obj[key]\<close> of a missing property is \<^verbatim>\<open>undefined\<close>.
\<close>

type_synonym jsobject = "(string \<times> jsval) list"

definition object_keys :: "jsobject \<Rightarrow> string list" where
  "object_keys obj = map fst obj"

definition js_get :: "jsobject \<Rightarrow> string \<Rightarrow> jsval" where
  "js_get obj key = (case map_of obj key of None \<Rightarrow> JUndefined | Some v \<Rightarrow> v)"

fun truthy :: "jsval \<Rightarrow> bool" where
  "truthy JUndefined = False"
| "truthy JNull = False"
| "truthy (JBool b) = b"
| "truthy (JNum n) = (n \<noteq> 0)"
| "truthy (JStr s) = (s \<noteq> [])"

text \<open>The operator \<^verbatim>\<open>a || b\<close>.\<close>

definition js_or :: "jsval \<Rightarrow> jsval \<Rightarrow> jsval" where
  "js_or a b = (if truthy a then a else b)"

fun string_of_nat :: "nat \<Rightarrow> string" where
  "string_of_nat n =
     (if n < 10 then [''0123456789'' ! n]
      else string_of_nat (n div 10) @ [''0123456789'' ! (n mod 10)])"

declare string_of_nat.simps [simp del]

text \<open>The abstract operation ToString on the values above.\<close>

fun ToString :: "jsval \<Rightarrow> string" where
  "ToString JUndefined = ''undefined''"
| "ToString JNull = ''null''"
| "ToString (JBool b) = (if b then ''true'' else ''false'')"
| "ToString (JNum n) = (if n < 0 then CHR ''-'' # string_of_nat (nat (- n)) else string_of_nat (nat n))"
| "ToString (JStr s) = s"

section \<open>The template renderer\<close>

text \<open>
  \<^verbatim>\<open>new RegExp(`{{${key}}}`, 'g')\<close>: for a key that is an identifier the
  pattern has no metacharacter and no well-formed quantifier, so it matches the text
  \<^verbatim>\<open>{{key}}\<close> literally and has no capture group.
\<close>

definition placeholder :: "string \<Rightarrow> string" where
  "placeholder key = ''{{'' @ key @ ''}}''"

definition ident_char :: "char \<Rightarrow> bool" where
  "ident_char c = (c \<in> set ''abcdefghijklmnopqrstuvwxyzABCDEFGHIJKLMNOPQRSTUVWXYZ0123456789_'')"

definition plain_key :: "string \<Rightarrow> bool" where
  "plain_key key = (key \<noteq> [] \<and> list_all ident_char key \<and> hd key \<notin> set ''0123456789'')"

text \<open>
  The replacement text of \<^verbatim>\<open>String.prototype.replace\<close> is itself a small
  template: \<^verbatim>\<open>$$\<close> stands for a dollar sign, \<^verbatim>\<open>$&\<close> for the matched text,
  \<^verbatim>\<open>$`\<close> for the subject up to the match and \<^verbatim>\<open>$'\<close> for the subject
  behind it. With no capture group every other use of \<^verbatim>\<open>$\<close> is literal.
\<close>

fun GetSubstitution :: "string \<Rightarrow> string \<Rightarrow> string \<Rightarrow> string \<Rightarrow> string" where
  "GetSubstitution matched pre post [] = []"
| "GetSubstitution matched pre post [c] = [c]"
| "GetSubstitution matched pre post (c # d # r) =
     (if c = CHR ''$'' \<and> d = CHR ''$'' then CHR ''$'' # GetSubstitution matched pre post r
      else if c = CHR ''$'' \<and> d = CHR ''&'' then matched @ GetSubstitution matched pre post r
      else if c = CHR ''$'' \<and> d = CHR 0x60 then pre @ GetSubstitution matched pre post r
      else if c = CHR ''$'' \<and> d = CHR 0x27 then post @ GetSubstitution matched pre post r
      else c # GetSubstitution matched pre post (d # r))"

text \<open>
  \<^verbatim>\<open>subject.replace(regex, replacement)\<close> with a global, literal, non-empty pattern:
  the subject is scanned once from left to right, every match is replaced by its
  substitution and the scan goes on behind the match, in the subject, never in the
  text just inserted. \<open>pre\<close> is the part of the subject already scanned.
\<close>

function replace_g :: "string \<Rightarrow> string \<Rightarrow> string \<Rightarrow> string \<Rightarrow> string" where
  "replace_g pat repl pre [] = []"
| "replace_g pat repl pre (c # cs) =
     (if pat \<noteq> [] \<and> prefix pat (c # cs)
      then GetSubstitution pat pre (drop (length pat) (c # cs)) repl
           @ replace_g pat repl (pre @ pat) (drop (length pat) (c # cs))
      else c # replace_g pat repl (pre @ [c]) cs)"
  by pat_completeness auto
termination
  by (relation "measure (\<lambda>(pat, repl, pre, s). length s)") (auto simp: neq_Nil_conv)

declare replace_g.simps(2) [simp del]

text \<open>
  \<^verbatim>\<open>
  const replaceVariables = (template: string, context: any): string => {
    let result = template;
    Object.keys(context).forEach((key) => {
      const regex = new RegExp(`{{${key}}}`, 'g');
      result = result.replace(regex, context[key] || '');
    });
    return result;
  };
  \<close>
  The configuration that holds the template is untyped, so the template may be any
  value: \<^verbatim>\<open>result.replace\<close> of a value that is not a string throws a TypeError at
  the first key, and with no key the template is returned as it is.
\<close>

datatype exn = TypeError | TransportError | DbError

definition replace_step :: "jsobject \<Rightarrow> string \<Rightarrow> string \<Rightarrow> string" where
  "replace_step ctx key result =
     replace_g (placeholder key) (ToString (js_or (js_get ctx key) (JStr ''''))) [] result"

definition replaceVariables :: "jsval \<Rightarrow> jsobject \<Rightarrow> exn + jsval" where
  "replaceVariables template ctx =
     (case template of
        JStr t \<Rightarrow> Inr (JStr (fold (replace_step ctx) (object_keys ctx) t))
      | _ \<Rightarrow> if object_keys ctx = [] then Inr template else Inl TypeError)"


section \<open>The data the engine reads and writes\<close>

text \<open>
  Modelled from the spec: the Prisma schema (the enums \<^verbatim>\<open>AutomationTrigger\<close>,
  \<^verbatim>\<open>AutomationAction\<close>, \<^verbatim>\<open>FormSubmissionStatus\<close>, the booking status, and the
  models with their defaults) is not among the sources. The rows below have the fields
  the engine uses; a field name carries the model's name where two models share it.
  The triggers are the three the engine dispatches and the four event triggers the
  specification lists; the actions are the cases of the executor's \<^verbatim>\<open>switch\<close>;
  the statuses are those the specification lists, of which the engine names PENDING,
  OVERDUE and CONFIRMED.
\<close>

datatype AutomationTrigger =
  BOOKING_REMINDER | FORM_PENDING | INVENTORY_LOW
  | BOOKING_CREATED | CONTACT_CREATED | FORM_SUBMITTED | BOOKING_COMPLETED

datatype AutomationAction = SEND_EMAIL | SEND_SMS | CREATE_ALERT

datatype FormSubmissionStatus = PENDING | COMPLETED | OVERDUE

datatype BookingStatus =
  Booking_PENDING | Booking_CONFIRMED | Booking_COMPLETED | Booking_CANCELLED | Booking_NO_SHOW

record automation =
  rule_id :: string
  rule_workspaceId :: string
  rule_trigger :: AutomationTrigger
  rule_action :: AutomationAction
  rule_config :: jsobject
  rule_isActive :: bool

record alert =
  alert_workspaceId :: string
  alert_type :: jsval
  alert_priority :: jsval
  alert_title :: jsval
  alert_message :: jsval
  alert_linkTo :: jsval
  alert_isRead :: bool
  alert_createdAt :: int

record contact =
  contact_firstName :: jsval
  contact_lastName :: jsval
  contact_email :: jsval
  contact_phone :: jsval

record booking =
  booking_workspaceId :: string
  booking_startTime :: int
  booking_status :: BookingStatus
  booking_contact :: "contact option"
  booking_bookingType :: "string option"

record formSubmission =
  submission_id :: string
  submission_status :: FormSubmissionStatus
  submission_createdAt :: int
  submission_dueDate :: "int option"
  submission_contact :: contact
  submission_form_name :: string
  submission_booking :: "string option"

record inventoryItem =
  item_id :: string
  item_workspaceId :: string
  item_name :: string
  item_quantity :: int
  item_lowStockThreshold :: int
  item_isActive :: bool

record EmailPayload =
  email_to :: jsval
  email_subject :: jsval
  email_body :: jsval

record SMSPayload =
  sms_to :: jsval
  sms_message :: jsval

text \<open>
  The state: the clock, the tables, the module variable \<^verbatim>\<open>ioInstance\<close> (set or
  null), and what has left the process: the calls of the two channels, the Socket.IO
  emissions (room, type, message) and the lines of \<^verbatim>\<open>console.error\<close>.
  \<open>exec_log\<close> and \<open>dispatch_log\<close> record the calls of
  \<^verbatim>\<open>executeAutomation\<close> and \<^verbatim>\<open>triggerAutomation\<close>; the program never reads
  them. The clock stands still during one scan.
\<close>

record world =
  now :: int
  automations :: "automation list"
  bookings :: "booking list"
  formSubmissions :: "formSubmission list"
  inventoryItems :: "inventoryItem list"
  alerts :: "alert list"
  ioInstance :: bool
  email_calls :: "EmailPayload list"
  sms_calls :: "SMSPayload list"
  emitted :: "(string \<times> jsval \<times> jsval) list"
  error_log :: "string list"
  exec_log :: "(automation \<times> jsobject) list"
  dispatch_log :: "(string \<times> AutomationTrigger \<times> jsobject) list"

text \<open>
  What the engine does not control: whether a provider or the database fails on a given
  call, the locale's date and time formats, and the calendar. \<^verbatim>\<open>addDays\<close> is
  imported from the library date-fns, which is not part of the sources: it moves a date
  by whole days of the server's local calendar and keeps the local time of day, so a
  day is 24 hours long only where the server's time zone has no clock change in it. It
  is a parameter of the environment; dates are milliseconds.
\<close>

datatype db_op =
  FindAutomations string AutomationTrigger
  | CreateAlert alert
  | FindBookings
  | FindPendingForms
  | FindOverdueForms
  | UpdateSubmission string
  | FindLowStockItems
  | FindRecentAlert inventoryItem

record env =
  email_fails :: "EmailPayload \<Rightarrow> bool"
  sms_fails :: "SMSPayload \<Rightarrow> bool"
  db_fails :: "db_op \<Rightarrow> bool"
  toLocaleDateString :: "int \<Rightarrow> string"
  toLocaleTimeString :: "int \<Rightarrow> string"
  addDays :: "int \<Rightarrow> int \<Rightarrow> int"

section \<open>Exceptions\<close>

text \<open>
  A statement returns the exception it threw, if any, and the state it left.
  \<open>try_catch\<close> is \<^verbatim>\<open>try { ... } catch (error) { console.error(msg, error) }\<close>;
  \<open>for_each\<close> is a \<^verbatim>\<open>for ... of\<close> loop with an \<^verbatim>\<open>await\<close> in its body, which
  an exception leaves.
\<close>

type_synonym outcome = "exn option \<times> world"

definition console_error :: "string \<Rightarrow> world \<Rightarrow> world" where
  "console_error msg w = w\<lparr>error_log := error_log w @ [msg]\<rparr>"

definition try_catch :: "string \<Rightarrow> outcome \<Rightarrow> outcome" where
  "try_catch msg r =
     (case r of (Some e, w) \<Rightarrow> (None, console_error msg w) | (None, w) \<Rightarrow> (None, w))"

fun for_each :: "('a \<Rightarrow> world \<Rightarrow> outcome) \<Rightarrow> 'a list \<Rightarrow> world \<Rightarrow> outcome" where
  "for_each f [] w = (None, w)"
| "for_each f (x # xs) w =
     (case f x w of (Some e, w') \<Rightarrow> (Some e, w') | (None, w') \<Rightarrow> for_each f xs w')"

section \<open>The channels\<close>

text \<open>
  \<^verbatim>\<open>sendEmail\<close> and \<^verbatim>\<open>sendSMS\<close> hand the payload to the provider; when that
  fails they log and throw the error again.
\<close>

definition sendEmail :: "env \<Rightarrow> EmailPayload \<Rightarrow> world \<Rightarrow> outcome" where
  "sendEmail e payload w =
     (let w' = w\<lparr>email_calls := email_calls w @ [payload]\<rparr>
      in if email_fails e payload then (Some TransportError, console_error ''Error sending email:'' w')
         else (None, w'))"

definition sendSMS :: "env \<Rightarrow> SMSPayload \<Rightarrow> world \<Rightarrow> outcome" where
  "sendSMS e payload w =
     (let w' = w\<lparr>sms_calls := sms_calls w @ [payload]\<rparr>
      in if sms_fails e payload then (Some TransportError, console_error ''Error sending SMS:'' w')
         else (None, w'))"

text \<open>
  Modelled from the spec: the defaults of an Alert row are in the schema, which is not
  among the sources. \<^verbatim>\<open>prisma.alert.create\<close> appends the row, which gets its
  defaults in \<open>alert_row\<close> below: not read, and created now.
\<close>

definition alert_create :: "env \<Rightarrow> alert \<Rightarrow> world \<Rightarrow> outcome" where
  "alert_create e row w =
     (if db_fails e (CreateAlert row) then (Some DbError, w)
      else (None, w\<lparr>alerts := alerts w @ [row]\<rparr>))"

section \<open>The rule executor\<close>

text \<open>
  \<^verbatim>\<open>executeAutomation\<close>: the body of its \<^verbatim>\<open>try\<close>, then the function. The
  arguments of a call are evaluated before the call, in the order they are written, so
  a template that throws prevents the send and the insert.
\<close>

definition alert_row :: "automation \<Rightarrow> jsobject \<Rightarrow> jsval \<Rightarrow> jsval \<Rightarrow> world \<Rightarrow> alert" where
  "alert_row automation ctx title message w =
     \<lparr>alert_workspaceId = rule_workspaceId automation,
      alert_type = js_get (rule_config automation) ''alertType'',
      alert_priority = js_or (js_get (rule_config automation) ''priority'') (JStr ''MEDIUM''),
      alert_title = title,
      alert_message = message,
      alert_linkTo = js_or (js_get ctx ''linkTo'') JNull,
      alert_isRead = False,
      alert_createdAt = now w\<rparr>"

definition executeAutomation_body :: "env \<Rightarrow> automation \<Rightarrow> jsobject \<Rightarrow> world \<Rightarrow> outcome" where
  "executeAutomation_body e automation ctx w =
     (let config = rule_config automation in
      case rule_action automation of
        SEND_EMAIL \<Rightarrow>
          if truthy (js_get ctx ''email'') then
            (case replaceVariables (js_get config ''body'') ctx of
               Inl x \<Rightarrow> (Some x, w)
             | Inr body \<Rightarrow>
                 sendEmail e \<lparr>email_to = js_get ctx ''email'',
                               email_subject = js_or (js_get config ''subject'') (JStr ''Notification''),
                               email_body = body\<rparr> w)
          else (None, w)
      | SEND_SMS \<Rightarrow>
          if truthy (js_get ctx ''phone'') then
            (case replaceVariables (js_get config ''message'') ctx of
               Inl x \<Rightarrow> (Some x, w)
             | Inr message \<Rightarrow>
                 sendSMS e \<lparr>sms_to = js_get ctx ''phone'', sms_message = message\<rparr> w)
          else (None, w)
      | CREATE_ALERT \<Rightarrow>
          (case replaceVariables (js_get config ''title'') ctx of
             Inl x \<Rightarrow> (Some x, w)
           | Inr title \<Rightarrow>
               (case replaceVariables (js_get config ''message'') ctx of
                  Inl x \<Rightarrow> (Some x, w)
                | Inr message \<Rightarrow>
                    (case alert_create e (alert_row automation ctx title message w) w of
                       (Some x, w') \<Rightarrow> (Some x, w')
                     | (None, w') \<Rightarrow>
                         if ioInstance w'
                         then (None, w'\<lparr>emitted := emitted w' @
                                 [(''workspace-'' @ rule_workspaceId automation,
                                   js_get config ''alertType'', message)]\<rparr>)
                         else (None, w')))))"

definition executeAutomation :: "env \<Rightarrow> automation \<Rightarrow> jsobject \<Rightarrow> world \<Rightarrow> outcome" where
  "executeAutomation e automation ctx w =
     try_catch ''Error executing automation:''
       (executeAutomation_body e automation ctx
          (w\<lparr>exec_log := exec_log w @ [(automation, ctx)]\<rparr>))"

section \<open>The event dispatcher\<close>

definition rule_matches :: "string \<Rightarrow> AutomationTrigger \<Rightarrow> automation \<Rightarrow> bool" where
  "rule_matches workspaceId trigger a =
     (rule_workspaceId a = workspaceId \<and> rule_trigger a = trigger \<and> rule_isActive a = True)"

definition triggerAutomation ::
  "env \<Rightarrow> string \<Rightarrow> AutomationTrigger \<Rightarrow> jsobject \<Rightarrow> world \<Rightarrow> outcome" where
  "triggerAutomation e workspaceId trigger ctx w =
     try_catch ''Error triggering automation:''
       (let w' = w\<lparr>dispatch_log := dispatch_log w @ [(workspaceId, trigger, ctx)]\<rparr>
        in if db_fails e (FindAutomations workspaceId trigger) then (Some DbError, w')
           else for_each (\<lambda>automation. executeAutomation e automation ctx)
                  (filter (rule_matches workspaceId trigger) (automations w')) w')"

section \<open>The periodic scanners\<close>

text \<open>\<^verbatim>\<open>trim\<close> removes white space at both ends.\<close>

definition white_space :: "char \<Rightarrow> bool" where
  "white_space c = (c \<in> {CHR '' '', CHR 0x09, CHR 0x0A, CHR 0x0B, CHR 0x0C, CHR 0x0D, CHR 0xA0})"

definition js_trim :: "string \<Rightarrow> string" where
  "js_trim s = rev (dropWhile white_space (rev (dropWhile white_space s)))"

definition contactName :: "jsval \<Rightarrow> jsval \<Rightarrow> jsval" where
  "contactName firstName lastName =
     JStr (js_trim (ToString firstName @ '' '' @ ToString (js_or lastName (JStr []))))"

definition optional :: "'a option \<Rightarrow> ('a \<Rightarrow> jsval) \<Rightarrow> jsval" where
  "optional obj field = (case obj of None \<Rightarrow> JUndefined | Some x \<Rightarrow> field x)"

definition booking_context :: "env \<Rightarrow> booking \<Rightarrow> jsobject" where
  "booking_context e b =
     [(''contactName'', contactName (optional (booking_contact b) contact_firstName)
                                    (optional (booking_contact b) contact_lastName)),
      (''email'', optional (booking_contact b) contact_email),
      (''phone'', optional (booking_contact b) contact_phone),
      (''bookingType'', optional (booking_bookingType b) JStr),
      (''bookingDate'', JStr (toLocaleDateString e (booking_startTime b))),
      (''bookingTime'', JStr (toLocaleTimeString e (booking_startTime b)))]"

definition upcomingBookings :: "env \<Rightarrow> world \<Rightarrow> booking list" where
  "upcomingBookings e w =
     (let tomorrow = addDays e (now w) 1
      in filter (\<lambda>b. tomorrow \<le> booking_startTime b
                    \<and> booking_startTime b \<le> addDays e tomorrow 1
                    \<and> booking_status b \<in> {Booking_PENDING, Booking_CONFIRMED})
           (bookings w))"

definition checkBookingReminders :: "env \<Rightarrow> world \<Rightarrow> outcome" where
  "checkBookingReminders e w =
     try_catch ''Error checking booking reminders:''
       (if db_fails e FindBookings then (Some DbError, w)
        else for_each
               (\<lambda>b. triggerAutomation e (booking_workspaceId b) BOOKING_REMINDER (booking_context e b))
               (upcomingBookings e w) w)"

definition submission_context :: "formSubmission \<Rightarrow> jsobject" where
  "submission_context s =
     [(''contactName'', contactName (contact_firstName (submission_contact s))
                                    (contact_lastName (submission_contact s))),
      (''email'', contact_email (submission_contact s)),
      (''phone'', contact_phone (submission_contact s)),
      (''formName'', JStr (submission_form_name s))]"

definition pendingForms :: "env \<Rightarrow> world \<Rightarrow> formSubmission list" where
  "pendingForms e w =
     (let oneDayAgo = addDays e (now w) (- 1)
      in filter (\<lambda>s. submission_status s = PENDING \<and> submission_createdAt s \<le> oneDayAgo)
           (formSubmissions w))"

definition checkPendingForms :: "env \<Rightarrow> world \<Rightarrow> outcome" where
  "checkPendingForms e w =
     try_catch ''Error checking pending forms:''
       (if db_fails e FindPendingForms then (Some DbError, w)
        else for_each
               (\<lambda>s w'. case submission_booking s of
                          None \<Rightarrow> (None, w')
                        | Some workspaceId \<Rightarrow>
                            triggerAutomation e workspaceId FORM_PENDING (submission_context s) w')
               (pendingForms e w) w)"

text \<open>
  \<^verbatim>\<open>prisma.formSubmission.update({ where: { id }, data: { status: OVERDUE } })\<close>
  writes the row of that primary key. A comparison with a date that is null selects
  nothing.
\<close>

definition overdueForms :: "world \<Rightarrow> formSubmission list" where
  "overdueForms w =
     filter (\<lambda>s. submission_status s = PENDING
                 \<and> (case submission_dueDate s of None \<Rightarrow> False | Some d \<Rightarrow> d < now w))
       (formSubmissions w)"

definition submission_update :: "env \<Rightarrow> string \<Rightarrow> FormSubmissionStatus \<Rightarrow> world \<Rightarrow> outcome" where
  "submission_update e ident st w =
     (if db_fails e (UpdateSubmission ident) then (Some DbError, w)
      else (None, w\<lparr>formSubmissions :=
              map (\<lambda>r. if submission_id r = ident then r\<lparr>submission_status := st\<rparr> else r)
                (formSubmissions w)\<rparr>))"

definition checkOverdueForms :: "env \<Rightarrow> world \<Rightarrow> outcome" where
  "checkOverdueForms e w =
     try_catch ''Error checking overdue forms:''
       (if db_fails e FindOverdueForms then (Some DbError, w)
        else for_each (\<lambda>s. submission_update e (submission_id s) OVERDUE) (overdueForms w) w)"

text \<open>
  The low-inventory scan asks, item by item and in the state the items before it have
  left, for an alert of type \<^verbatim>\<open>'LOW_INVENTORY'\<close> of the item's workspace, created
  at or after \<^verbatim>\<open>addDays(new Date(), -1)\<close>, whose message contains the item's name.
\<close>

definition lowStockItems :: "world \<Rightarrow> inventoryItem list" where
  "lowStockItems w =
     filter (\<lambda>i. item_isActive i = True \<and> item_quantity i \<le> item_lowStockThreshold i)
       (inventoryItems w)"

definition recent_alert_where :: "env \<Rightarrow> world \<Rightarrow> inventoryItem \<Rightarrow> alert \<Rightarrow> bool" where
  "recent_alert_where e w item a =
     (alert_workspaceId a = item_workspaceId item
      \<and> alert_type a = JStr ''LOW_INVENTORY''
      \<and> addDays e (now w) (- 1) \<le> alert_createdAt a
      \<and> (case alert_message a of JStr m \<Rightarrow> sublist (item_name item) m | _ \<Rightarrow> False))"

definition recentAlert :: "env \<Rightarrow> world \<Rightarrow> inventoryItem \<Rightarrow> alert option" where
  "recentAlert e w item = find (recent_alert_where e w item) (alerts w)"

definition item_context :: "inventoryItem \<Rightarrow> jsobject" where
  "item_context item =
     [(''itemName'', JStr (item_name item)),
      (''quantity'', JNum (item_quantity item)),
      (''threshold'', JNum (item_lowStockThreshold item)),
      (''linkTo'', JStr (''/inventory/'' @ item_id item))]"

definition check_item :: "env \<Rightarrow> inventoryItem \<Rightarrow> world \<Rightarrow> outcome" where
  "check_item e item w =
     (if db_fails e (FindRecentAlert item) then (Some DbError, w)
      else case recentAlert e w item of
             Some a \<Rightarrow> (None, w)
           | None \<Rightarrow> triggerAutomation e (item_workspaceId item) INVENTORY_LOW (item_context item) w)"

definition checkInventoryLevels :: "env \<Rightarrow> world \<Rightarrow> outcome" where
  "checkInventoryLevels e w =
     try_catch ''Error checking inventory levels:''
       (if db_fails e FindLowStockItems then (Some DbError, w)
        else for_each (check_item e) (lowStockItems w) w)"

section \<open>The scheduler\<close>

text \<open>
  \<^verbatim>\<open>startAutomationEngine\<close> stores the Socket.IO server and registers two jobs:
  every 15 minutes the reminder, pending-form and inventory scans, one after the other,
  and every hour the overdue scan.
\<close>

definition startAutomationEngine :: "world \<Rightarrow> world" where
  "startAutomationEngine w = w\<lparr>ioInstance := True\<rparr>"

definition every_15_minutes :: "env \<Rightarrow> world \<Rightarrow> outcome" where
  "every_15_minutes e w =
     (case checkBookingReminders e w of
        (Some x, w1) \<Rightarrow> (Some x, w1)
      | (None, w1) \<Rightarrow>
          (case checkPendingForms e w1 of
             (Some x, w2) \<Rightarrow> (Some x, w2)
           | (None, w2) \<Rightarrow> checkInventoryLevels e w2))"

definition every_hour :: "env \<Rightarrow> world \<Rightarrow> outcome" where
  "every_hour e w = checkOverdueForms e w"

section \<open>Templates as text and placeholders\<close>

text \<open>
  To say what the renderer computes, a template is read as a sequence of pieces: text
  without an opening brace, and placeholders \<^verbatim>\<open>{{key}}\<close> whose key is an
  identifier. \<open>fill\<close> puts a text in the place of one key's placeholders;
  \<open>fill_all\<close> does so for every key of a list, with the text the renderer inserts
  for the key, the string form of \<^verbatim>\<open>ctx[key] || ''\<close>. A context is plain when
  its keys are identifiers and these texts have neither a dollar sign nor an opening
  brace.
\<close>

datatype piece = Text string | Hole string

fun piece_text :: "piece \<Rightarrow> string" where
  "piece_text (Text s) = s"
| "piece_text (Hole key) = placeholder key"

definition flatten :: "piece list \<Rightarrow> string" where
  "flatten ps = concat (map piece_text ps)"

fun wf_piece :: "piece \<Rightarrow> bool" where
  "wf_piece (Text s) = (CHR ''{'' \<notin> set s)"
| "wf_piece (Hole key) = plain_key key"

fun fill :: "string \<Rightarrow> string \<Rightarrow> piece \<Rightarrow> piece" where
  "fill key v (Text s) = Text s"
| "fill key v (Hole m) = (if m = key then Text v else Hole m)"

definition value_text :: "jsobject \<Rightarrow> string \<Rightarrow> string" where
  "value_text ctx key = ToString (js_or (js_get ctx key) (JStr []))"

definition plain_context :: "jsobject \<Rightarrow> bool" where
  "plain_context ctx =
     list_all (\<lambda>key. plain_key key
                    \<and> CHR ''$'' \<notin> set (value_text ctx key)
                    \<and> CHR ''{'' \<notin> set (value_text ctx key))
       (object_keys ctx)"

text \<open>
  A value may itself be made of pieces. \<open>splice\<close> puts the pieces of a value in the
  place of a key's placeholders, and \<open>no_later_holes\<close> says of a list of keys, in the
  order they are processed, that the value of no key holds the placeholder of a key
  that comes after it in the list.
\<close>

fun splice :: "string \<Rightarrow> piece list \<Rightarrow> piece \<Rightarrow> piece list" where
  "splice key vs (Text s) = [Text s]"
| "splice key vs (Hole m) = (if m = key then vs else [Hole m])"

fun no_later_holes :: "(string \<Rightarrow> piece list) \<Rightarrow> string list \<Rightarrow> bool" where
  "no_later_holes parts [] = True"
| "no_later_holes parts (key # keys) =
     (list_all (\<lambda>later. Hole later \<notin> set (parts key)) keys \<and> no_later_holes parts keys)"

definition pieces_context :: "(string \<Rightarrow> piece list) \<Rightarrow> jsobject \<Rightarrow> bool" where
  "pieces_context parts ctx =
     (list_all (\<lambda>key. plain_key key
                     \<and> CHR ''$'' \<notin> set (value_text ctx key)
                     \<and> list_all wf_piece (parts key)
                     \<and> flatten (parts key) = value_text ctx key)
        (object_keys ctx)
      \<and> no_later_holes parts (object_keys ctx))"

fun fill_all :: "jsobject \<Rightarrow> string list \<Rightarrow> piece \<Rightarrow> piece" where
  "fill_all ctx keys (Text s) = Text s"
| "fill_all ctx keys (Hole m) = (if m \<in> set keys then Text (value_text ctx m) else Hole m)"

section \<open>Notions for the properties of the engine\<close>

text \<open>
  \<open>same_tables\<close> relates two states with the same clock, the same rows in the tables
  the executor does not write and the same Socket.IO handle. \<open>dispatched\<close> is the
  list of rules a dispatch goes through: the rows its query returns, none when the query
  fails.
\<close>

definition same_tables :: "world \<Rightarrow> world \<Rightarrow> bool" where
  "same_tables w w' =
     (now w' = now w \<and> automations w' = automations w \<and> bookings w' = bookings w
      \<and> formSubmissions w' = formSubmissions w \<and> inventoryItems w' = inventoryItems w
      \<and> ioInstance w' = ioInstance w)"

definition dispatched :: "env \<Rightarrow> string \<Rightarrow> AutomationTrigger \<Rightarrow> world \<Rightarrow> automation list" where
  "dispatched e workspaceId trigger w =
     (if db_fails e (FindAutomations workspaceId trigger) then []
      else filter (rule_matches workspaceId trigger) (automations w))"

text \<open>
  For the overdue scan: the rows its query selects, an environment where its query and
  its updates succeed, the effect of the updates on a row, and the rows it reaches
  before an update fails. For the inventory scan: the dispatches that are allowed, and
  what holds between the state before and after the loop.
\<close>

definition is_overdue :: "world \<Rightarrow> formSubmission \<Rightarrow> bool" where
  "is_overdue w s =
     (submission_status s = PENDING
      \<and> (case submission_dueDate s of None \<Rightarrow> False | Some d \<Rightarrow> d < now w))"

definition overdue_db_ok :: "env \<Rightarrow> world \<Rightarrow> bool" where
  "overdue_db_ok e w =
     (\<not> db_fails e FindOverdueForms
      \<and> list_all (\<lambda>s. \<not> db_fails e (UpdateSubmission (submission_id s))) (formSubmissions w))"

definition mark_overdue :: "string set \<Rightarrow> formSubmission \<Rightarrow> formSubmission" where
  "mark_overdue ids r = (if submission_id r \<in> ids then r\<lparr>submission_status := OVERDUE\<rparr> else r)"

definition updated :: "env \<Rightarrow> world \<Rightarrow> formSubmission list" where
  "updated e w =
     (if db_fails e FindOverdueForms then []
      else takeWhile (\<lambda>s. \<not> db_fails e (UpdateSubmission (submission_id s))) (overdueForms w))"

definition low_inventory_entry ::
  "env \<Rightarrow> world \<Rightarrow> inventoryItem list \<Rightarrow> string \<times> AutomationTrigger \<times> jsobject \<Rightarrow> bool" where
  "low_inventory_entry e w items x =
     (\<exists>i\<in>set items. x = (item_workspaceId i, INVENTORY_LOW, item_context i) \<and> recentAlert e w i = None)"

definition scan_inv :: "env \<Rightarrow> inventoryItem list \<Rightarrow> world \<Rightarrow> world \<Rightarrow> bool" where
  "scan_inv e items w w' =
     (now w' = now w \<and> prefix (alerts w) (alerts w')
      \<and> (\<exists>entries. dispatch_log w' = dispatch_log w @ entries
             \<and> (\<forall>x\<in>set entries. low_inventory_entry e w items x)))"

text \<open>
  \<open>scan_step\<close> is one turn of the inventory scan when the database answers: the
  state is left as it is when an alert about the item is recent, and is the state after
  the dispatch otherwise. \<open>alerts_added\<close> holds of two states when the second has the
  alerts of the first and, after them, alerts of the given workspace only.
\<close>

definition scan_step :: "env \<Rightarrow> inventoryItem \<Rightarrow> world \<Rightarrow> world" where
  "scan_step e i w =
     (if \<exists>a\<in>set (alerts w). recent_alert_where e w i a then w
      else snd (triggerAutomation e (item_workspaceId i) INVENTORY_LOW (item_context i) w))"

definition alerts_added :: "string \<Rightarrow> world \<Rightarrow> world \<Rightarrow> bool" where
  "alerts_added workspaceId w w' =
     (\<exists>new. alerts w' = alerts w @ new \<and> (\<forall>a\<in>set new. alert_workspaceId a = workspaceId))"

section \<open>Example data\<close>

text \<open>
  An environment where nothing fails, on a server in UTC, whose days are all 24 hours
  long, and one where the email provider is down; an empty
  state; rules for the three actions; two contexts.
\<close>

definition env_ok :: env where
  "env_ok = \<lparr>email_fails = (\<lambda>p. False), sms_fails = (\<lambda>p. False), db_fails = (\<lambda>op. False),
             toLocaleDateString = (\<lambda>t. ''1/2/2026''), toLocaleTimeString = (\<lambda>t. ''9:00:00 AM''),
             addDays = (\<lambda>date amount. date + amount * 86400000)\<rparr>"

definition env_email_down :: env where
  "env_email_down = env_ok\<lparr>email_fails := (\<lambda>p. True)\<rparr>"

definition world0 :: world where
  "world0 = \<lparr>now = 1767312000000, automations = [], bookings = [], formSubmissions = [],
             inventoryItems = [], alerts = [], ioInstance = True, email_calls = [], sms_calls = [],
             emitted = [], error_log = [], exec_log = [], dispatch_log = []\<rparr>"

definition rule_alert :: "string \<Rightarrow> string \<Rightarrow> AutomationTrigger \<Rightarrow> bool \<Rightarrow> automation" where
  "rule_alert ident workspaceId trigger active =
     \<lparr>rule_id = ident, rule_workspaceId = workspaceId, rule_trigger = trigger,
      rule_action = CREATE_ALERT,
      rule_config = [(''alertType'', JStr ''LOW_INVENTORY''),
                     (''title'', JStr ''{{itemName}} low''),
                     (''message'', JStr ''{{itemName}}: only {{quantity}} left'')],
      rule_isActive = active\<rparr>"

definition rule_email :: "string \<Rightarrow> string \<Rightarrow> AutomationTrigger \<Rightarrow> automation" where
  "rule_email ident workspaceId trigger =
     \<lparr>rule_id = ident, rule_workspaceId = workspaceId, rule_trigger = trigger,
      rule_action = SEND_EMAIL,
      rule_config = [(''subject'', JStr ''Hello {{contactName}}''), (''body'', JStr ''Dear {{contactName}}'')],
      rule_isActive = True\<rparr>"

definition rule_sms :: "string \<Rightarrow> string \<Rightarrow> AutomationTrigger \<Rightarrow> automation" where
  "rule_sms ident workspaceId trigger =
     \<lparr>rule_id = ident, rule_workspaceId = workspaceId, rule_trigger = trigger,
      rule_action = SEND_SMS,
      rule_config = [(''message'', JStr ''Dear {{contactName}}'')],
      rule_isActive = True\<rparr>"

definition ctx_sam :: jsobject where
  "ctx_sam = [(''contactName'', JStr ''Sam''), (''email'', JStr ''sam@example.com''), (''phone'', JNull)]"

definition ctx_gloves :: jsobject where
  "ctx_gloves = [(''itemName'', JStr ''Gloves''), (''quantity'', JNum 3)]"

definition world_two_rules :: world where
  "world_two_rules =
     world0\<lparr>automations := [rule_email ''r1'' ''W1'' BOOKING_REMINDER,
                              rule_alert ''r2'' ''W1'' BOOKING_REMINDER True]\<rparr>"

text \<open>
  The window the specification gives for the reminder scan, to compare with the one of
  the code: from the start of tomorrow to the start of the day after, the end excluded,
  with days that begin at midnight UTC.
\<close>

definition startOfDay :: "int \<Rightarrow> int" where
  "startOfDay date = date - date mod 86400000"

definition claimed_reminder_window :: "int \<Rightarrow> int \<Rightarrow> bool" where
  "claimed_reminder_window t startTime =
     (startOfDay t + 86400000 \<le> startTime \<and> startTime < startOfDay t + 2 * 86400000)"

definition booking_at :: "int \<Rightarrow> booking" where
  "booking_at startTime =
     \<lparr>booking_workspaceId = ''W1'', booking_startTime = startTime,
      booking_status = Booking_CONFIRMED, booking_contact = None, booking_bookingType = None\<rparr>"

definition world_noon :: world where
  "world_noon = world0\<lparr>now := 1767355200000, bookings := [booking_at 1767402000000]\<rparr>"

text \<open>
  Form submissions due yesterday, due tomorrow, completed and without a due date; an
  item with no stock left, an alert about it and a state with that alert at a given
  age; a second item whose name contains the name of the first, and a state with both
  items and an alert about the first that is 25 hours old; a state with the same rule
  in two workspaces, a rule that is not active and a rule of another trigger.
\<close>

definition submission_of :: "string \<Rightarrow> FormSubmissionStatus \<Rightarrow> int option \<Rightarrow> formSubmission" where
  "submission_of ident st due =
     \<lparr>submission_id = ident, submission_status = st, submission_createdAt = 1767000000000,
      submission_dueDate = due,
      submission_contact = \<lparr>contact_firstName = JStr ''Sam'', contact_lastName = JNull,
                            contact_email = JStr ''sam@example.com'', contact_phone = JNull\<rparr>,
      submission_form_name = ''Intake'', submission_booking = Some ''W1''\<rparr>"

definition world_forms :: world where
  "world_forms =
     world0\<lparr>formSubmissions :=
       [submission_of ''s1'' PENDING (Some 1767225600000),
        submission_of ''s2'' PENDING (Some 1767398400000),
        submission_of ''s3'' COMPLETED (Some 1767225600000),
        submission_of ''s4'' PENDING None]\<rparr>"

definition gloves_xl :: inventoryItem where
  "gloves_xl = \<lparr>item_id = ''i2'', item_workspaceId = ''W1'', item_name = ''Gloves XL'',
                item_quantity = 2, item_lowStockThreshold = 10, item_isActive = True\<rparr>"

definition gloves :: inventoryItem where
  "gloves = \<lparr>item_id = ''i1'', item_workspaceId = ''W1'', item_name = ''Gloves'',
             item_quantity = 0, item_lowStockThreshold = 10, item_isActive = True\<rparr>"

definition alert_gloves :: "int \<Rightarrow> alert" where
  "alert_gloves createdAt =
     \<lparr>alert_workspaceId = ''W1'', alert_type = JStr ''LOW_INVENTORY'',
      alert_priority = JStr ''MEDIUM'', alert_title = JStr ''Gloves low'',
      alert_message = JStr ''Gloves: only 3 left'', alert_linkTo = JStr ''/inventory/i1'',
      alert_isRead = True, alert_createdAt = createdAt\<rparr>"

definition world_gloves :: "int \<Rightarrow> world" where
  "world_gloves age =
     world0\<lparr>automations := [rule_alert ''r1'' ''W1'' INVENTORY_LOW True],
            inventoryItems := [gloves],
            alerts := [alert_gloves (1767312000000 - age)]\<rparr>"

definition world_two_gloves :: world where
  "world_two_gloves =
     world0\<lparr>automations := [rule_alert ''r1'' ''W1'' INVENTORY_LOW True],
            inventoryItems := [gloves_xl, gloves],
            alerts := [alert_gloves (1767312000000 - 25 * 3600000)]\<rparr>"

definition world_four_rules :: world where
  "world_four_rules =
     world0\<lparr>automations := [rule_alert ''r1'' ''W1'' INVENTORY_LOW True,
                              rule_alert ''r2'' ''W2'' INVENTORY_LOW True,
                              rule_alert ''r3'' ''W1'' INVENTORY_LOW False,
                              rule_alert ''r4'' ''W1'' FORM_PENDING True]\<rparr>"

section \<open>Properties of the template renderer\<close>

lemma ident_char_not_special:
  "ident_char c \<Longrightarrow> c \<noteq> CHR ''{'' \<and> c \<noteq> CHR ''}'' \<and> c \<noteq> CHR ''$''"
  by (auto simp: ident_char_def)

lemma plain_key_chars:
  assumes "plain_key key"
  shows "CHR ''{'' \<notin> set key" and "CHR ''}'' \<notin> set key" and "key \<noteq> []"
  using assms ident_char_not_special by (auto simp: plain_key_def list_all_iff)

lemma GetSubstitution_plain:
  "CHR ''$'' \<notin> set r \<Longrightarrow> GetSubstitution m b a r = r"
  by (induction m b a r rule: GetSubstitution.induct) auto

lemma replace_g_no_match:
  assumes "\<not> prefix pat (c # cs)"
  shows "replace_g pat repl pre (c # cs) = c # replace_g pat repl (pre @ [c]) cs"
  by (subst replace_g.simps(2)) (use assms in simp)

lemma replace_g_skip:
  "c0 \<notin> set s \<Longrightarrow> replace_g (c0 # p) repl pre (s @ t) = s @ replace_g (c0 # p) repl (pre @ s) t"
proof (induction s arbitrary: pre)
  case Nil
  then show ?case by simp
next
  case (Cons c cs)
  then have np: "\<not> prefix (c0 # p) (c # (cs @ t))" by auto
  have "replace_g (c0 # p) repl pre (c # (cs @ t)) = c # replace_g (c0 # p) repl (pre @ [c]) (cs @ t)"
    by (rule replace_g_no_match[OF np])
  with Cons show ?case by simp
qed

lemma replace_g_match:
  assumes "pat \<noteq> []"
  shows "replace_g pat repl pre (pat @ t) = GetSubstitution pat pre t repl @ replace_g pat repl (pre @ pat) t"
proof -
  from assms obtain c p where pat: "pat = c # p" by (cases pat) auto
  have "replace_g pat repl pre (c # (p @ t)) = GetSubstitution pat pre t repl @ replace_g pat repl (pre @ pat) t"
    by (subst replace_g.simps(2)) (simp add: pat)
  then show ?thesis by (simp add: pat)
qed

lemma prefix_until_brace:
  "CHR ''}'' \<notin> set k \<Longrightarrow> CHR ''}'' \<notin> set m \<Longrightarrow> prefix (k @ CHR ''}'' # r1) (m @ CHR ''}'' # r2) \<Longrightarrow> k = m"
proof (induction k arbitrary: m)
  case Nil
  then show ?case by (cases m) auto
next
  case (Cons c k)
  then show ?case by (cases m) auto
qed

lemma replace_g_other_hole:
  assumes "plain_key k" "plain_key m" "k \<noteq> m"
  shows "replace_g (placeholder k) repl pre (placeholder m @ t)
         = placeholder m @ replace_g (placeholder k) repl (pre @ placeholder m) t"
proof -
  note km = plain_key_chars[OF assms(1)] plain_key_chars[OF assms(2)]
  obtain d m' where m: "m = d # m'" using km by (cases m) auto
  have d: "d \<noteq> CHR ''{''" using km m by auto
  have n1: "\<not> prefix (placeholder k) (placeholder m @ t)"
    using prefix_until_brace[of k m "''}''" "CHR ''}'' # t"] km assms(3)
    by (auto simp: placeholder_def)
  have n1': "\<not> prefix (placeholder k) (CHR ''{'' # (CHR ''{'' # m @ ''}}'' @ t))"
    using n1 by (simp add: placeholder_def)
  have s1: "replace_g (placeholder k) repl pre (CHR ''{'' # (CHR ''{'' # m @ ''}}'' @ t))
      = CHR ''{'' # replace_g (placeholder k) repl (pre @ ''{'') (CHR ''{'' # m @ ''}}'' @ t)"
    by (rule replace_g_no_match[OF n1'])
  have n2: "\<not> prefix (placeholder k) (CHR ''{'' # (m @ ''}}'' @ t))"
    using d by (simp add: placeholder_def m)
  have s2: "replace_g (placeholder k) repl (pre @ ''{'') (CHR ''{'' # (m @ ''}}'' @ t))
      = CHR ''{'' # replace_g (placeholder k) repl ((pre @ ''{'') @ ''{'') (m @ ''}}'' @ t)"
    by (rule replace_g_no_match[OF n2])
  have s3: "replace_g (placeholder k) repl ((pre @ ''{'') @ ''{'') ((m @ ''}}'') @ t)
      = (m @ ''}}'') @ replace_g (placeholder k) repl (((pre @ ''{'') @ ''{'') @ (m @ ''}}'')) t"
    unfolding placeholder_def append_Cons append_Nil
    by (rule replace_g_skip) (use km in auto)
  have "replace_g (placeholder k) repl pre (placeholder m @ t)
        = replace_g (placeholder k) repl pre (CHR ''{'' # (CHR ''{'' # m @ ''}}'' @ t))"
    by (simp add: placeholder_def)
  also have "\<dots> = CHR ''{'' # CHR ''{'' # (m @ ''}}'') @ replace_g (placeholder k) repl (((pre @ ''{'') @ ''{'') @ (m @ ''}}'')) t"
    using s1 s2 s3 by simp
  finally show ?thesis by (simp add: placeholder_def)
qed

lemma replace_g_pieces:
  assumes "plain_key k" "list_all wf_piece ps" "CHR ''$'' \<notin> set v"
  shows "replace_g (placeholder k) v pre (flatten ps) = flatten (map (fill k v) ps)"
  using assms(2)
proof (induction ps arbitrary: pre)
  case Nil
  then show ?case by (simp add: flatten_def)
next
  case (Cons p ps)
  then have wf: "wf_piece p" and IH: "\<And>pre. replace_g (placeholder k) v pre (flatten ps) = flatten (map (fill k v) ps)"
    by auto
  show ?case
  proof (cases p)
    case (Text s)
    then have "CHR ''{'' \<notin> set s" using wf by simp
    then have "replace_g (placeholder k) v pre (s @ flatten ps) = s @ replace_g (placeholder k) v (pre @ s) (flatten ps)"
      unfolding placeholder_def append_Cons append_Nil by (rule replace_g_skip)
    then show ?thesis using Text IH by (simp add: flatten_def)
  next
    case (Hole m)
    then have pm: "plain_key m" using wf by simp
    show ?thesis
    proof (cases "m = k")
      case True
      have "replace_g (placeholder k) v pre (placeholder k @ flatten ps)
            = v @ replace_g (placeholder k) v (pre @ placeholder k) (flatten ps)"
        using replace_g_match[of "placeholder k" v pre "flatten ps"] assms(3)
        by (simp add: GetSubstitution_plain placeholder_def)
      then show ?thesis using Hole True IH by (simp add: flatten_def)
    next
      case False
      then have "replace_g (placeholder k) v pre (placeholder m @ flatten ps)
            = placeholder m @ replace_g (placeholder k) v (pre @ placeholder m) (flatten ps)"
        using replace_g_other_hole[OF assms(1) pm] by auto
      then show ?thesis using Hole False IH by (simp add: flatten_def)
    qed
  qed
qed

lemma wf_fill: "list_all wf_piece ps \<Longrightarrow> CHR ''{'' \<notin> set v \<Longrightarrow> list_all wf_piece (map (fill k v) ps)"
  by (induction ps) (auto elim: wf_piece.elims simp: list_all_iff)

lemma fill_all_Cons: "fill_all ctx ks (fill k (value_text ctx k) p) = fill_all ctx (k # ks) p"
  by (cases p) auto

lemma fold_steps_pieces:
  assumes "\<forall>k\<in>set ks. plain_key k \<and> CHR ''$'' \<notin> set (value_text ctx k) \<and> CHR ''{'' \<notin> set (value_text ctx k)"
    and "list_all wf_piece ps"
  shows "fold (replace_step ctx) ks (flatten ps) = flatten (map (fill_all ctx ks) ps)"
  using assms
proof (induction ks arbitrary: ps)
  case Nil
  have "fill_all ctx [] p = p" for p
    by (cases p) auto
  then have "map (fill_all ctx []) ps = ps"
    by (induction ps) auto
  then show ?case by simp
next
  case (Cons k ks)
  then have k: "plain_key k" "CHR ''$'' \<notin> set (value_text ctx k)" "CHR ''{'' \<notin> set (value_text ctx k)"
    by auto
  have step: "replace_step ctx k (flatten ps) = flatten (map (fill k (value_text ctx k)) ps)"
    unfolding replace_step_def value_text_def[symmetric]
    by (rule replace_g_pieces[OF k(1) Cons.prems(2) k(2)])
  have "fold (replace_step ctx) ks (flatten (map (fill k (value_text ctx k)) ps))
        = flatten (map (fill_all ctx ks) (map (fill k (value_text ctx k)) ps))"
    by (rule Cons.IH) (use Cons.prems k wf_fill in auto)
  then show ?case by (simp add: step fill_all_Cons comp_def)
qed


text \<open>
  Claim C2, as the code has it. The renderer runs over the keys of the context only.
  On a template of text and placeholders and a plain context, every placeholder whose
  key is in the context is replaced by the string form of \<^verbatim>\<open>ctx[key] || ''\<close>, and
  every placeholder whose key is not in the context stays in the output as it is
  written.
\<close>

theorem render_fills_present_keeps_absent:
  assumes "list_all wf_piece ps" and "plain_context ctx"
  shows "replaceVariables (JStr (flatten ps)) ctx
         = Inr (JStr (flatten (map (fill_all ctx (object_keys ctx)) ps)))"
proof -
  have "\<forall>k\<in>set (object_keys ctx). plain_key k
          \<and> CHR ''$'' \<notin> set (value_text ctx k) \<and> CHR ''{'' \<notin> set (value_text ctx k)"
    using assms(2) by (simp add: plain_context_def list_all_iff)
  then show ?thesis
    by (simp add: replaceVariables_def fold_steps_pieces[OF _ assms(1)])
qed

text \<open>
  The theorem of C2 at the template of the specification, with a third placeholder whose
  key the context does not have.
\<close>

theorem render_fills_present_keeps_absent_witness:
  "list_all wf_piece [Text ''Hi '', Hole ''name'', Text '', item '', Hole ''item'', Text '' is low '', Hole ''missing'']
   \<and> plain_context [(''name'', JStr ''Sam''), (''item'', JStr ''Gloves'')]
   \<and> replaceVariables (JStr ''Hi {{name}}, item {{item}} is low {{missing}}'')
        [(''name'', JStr ''Sam''), (''item'', JStr ''Gloves'')]
      = Inr (JStr ''Hi Sam, item Gloves is low {{missing}}'')"
proof -
  have wf: "list_all wf_piece [Text ''Hi '', Hole ''name'', Text '', item '', Hole ''item'', Text '' is low '', Hole ''missing'']"
    by (simp add: plain_key_def ident_char_def)
  have pc: "plain_context [(''name'', JStr ''Sam''), (''item'', JStr ''Gloves'')]"
    by (simp add: plain_context_def plain_key_def ident_char_def object_keys_def value_text_def js_get_def js_or_def)
  show ?thesis
    using wf pc render_fills_present_keeps_absent[OF wf pc]
    by (simp add: flatten_def placeholder_def object_keys_def value_text_def js_get_def js_or_def)
qed

text \<open>
  Claim C2 as it is written fails: with an empty context the loop body never runs, and
  \<^verbatim>\<open>{{missing}}\<close> is returned, not the empty string.
\<close>

theorem render_missing_counterexample:
  "replaceVariables (JStr ''{{missing}}'') [] = Inr (JStr ''{{missing}}'')
   \<and> replaceVariables (JStr ''{{missing}}'') [] \<noteq> Inr (JStr [])"
  by (simp add: replaceVariables_def object_keys_def)

lemma flatten_splice:
  "flatten (concat (map (splice k vs) ps)) = flatten (map (fill k (flatten vs)) ps)"
proof (induction ps)
  case Nil
  show ?case by simp
next
  case (Cons p ps)
  have "flatten (splice k vs p) = piece_text (fill k (flatten vs) p)"
    by (cases p) (simp_all add: flatten_def)
  then show ?case using Cons by (simp add: flatten_def)
qed

lemma wf_splice:
  assumes "list_all wf_piece ps" and "list_all wf_piece vs"
  shows "list_all wf_piece (concat (map (splice k vs) ps))"
proof -
  have "list_all wf_piece (splice k vs p)" if "wf_piece p" for p
    using that assms(2) by (cases p) simp_all
  then show ?thesis
    using assms(1) by (induction ps) simp_all
qed

lemma fill_all_no_holes:
  assumes "\<forall>j\<in>set ks. Hole j \<notin> set vs"
  shows "map (fill_all ctx ks) vs = vs"
proof -
  have "fill_all ctx ks p = p" if "p \<in> set vs" for p
  proof (cases p)
    case (Text s)
    then show ?thesis by simp
  next
    case (Hole m)
    then have "m \<notin> set ks" using that assms by blast
    then show ?thesis using Hole by simp
  qed
  then show ?thesis by (simp add: map_idI)
qed

lemma fill_all_splice:
  assumes "\<forall>j\<in>set ks. Hole j \<notin> set vs" and "flatten vs = value_text ctx k"
  shows "flatten (map (fill_all ctx ks) (concat (map (splice k vs) ps)))
         = flatten (map (fill_all ctx (k # ks)) ps)"
proof (induction ps)
  case Nil
  show ?case by simp
next
  case (Cons p ps)
  have "flatten (map (fill_all ctx ks) (splice k vs p)) = piece_text (fill_all ctx (k # ks) p)"
  proof (cases p)
    case (Text s)
    then show ?thesis by (simp add: flatten_def)
  next
    case (Hole m)
    show ?thesis
    proof (cases "m = k")
      case True
      then show ?thesis
        using Hole fill_all_no_holes[OF assms(1), of ctx] assms(2) by simp
    next
      case False
      then show ?thesis using Hole by (simp add: flatten_def)
    qed
  qed
  then show ?case using Cons by (simp add: flatten_def)
qed

lemma fold_steps_values:
  assumes "\<forall>k\<in>set ks. plain_key k \<and> CHR ''$'' \<notin> set (value_text ctx k)
              \<and> list_all wf_piece (parts k) \<and> flatten (parts k) = value_text ctx k"
    and "no_later_holes parts ks" and "list_all wf_piece ps"
  shows "fold (replace_step ctx) ks (flatten ps) = flatten (map (fill_all ctx ks) ps)"
  using assms
proof (induction ks arbitrary: ps)
  case Nil
  have "fill_all ctx [] p = p" for p
    by (cases p) auto
  then have "map (fill_all ctx []) ps = ps"
    by (induction ps) auto
  then show ?case by simp
next
  case (Cons k ks)
  then have k: "plain_key k" "CHR ''$'' \<notin> set (value_text ctx k)"
    "list_all wf_piece (parts k)" "flatten (parts k) = value_text ctx k"
    by auto
  have later: "\<forall>j\<in>set ks. Hole j \<notin> set (parts k)" and rest: "no_later_holes parts ks"
    using Cons.prems(2) by (simp_all add: list_all_iff)
  let ?qs = "concat (map (splice k (parts k)) ps)"
  have "replace_step ctx k (flatten ps) = flatten (map (fill k (value_text ctx k)) ps)"
    unfolding replace_step_def value_text_def[symmetric]
    by (rule replace_g_pieces[OF k(1) Cons.prems(3) k(2)])
  then have step: "replace_step ctx k (flatten ps) = flatten ?qs"
    using flatten_splice[of k "parts k" ps] k(4) by simp
  have "fold (replace_step ctx) ks (flatten ?qs) = flatten (map (fill_all ctx ks) ?qs)"
    by (rule Cons.IH) (use Cons.prems(1) rest wf_splice[OF Cons.prems(3) k(3)] in auto)
  then show ?case
    using fill_all_splice[OF later k(4), of ps] by (simp add: step)
qed

text \<open>
  Claim C3, as the code has it. The steps run one key after the other, in the order of
  \<^verbatim>\<open>Object.keys\<close>, each over the whole running result; a step scans the result once
  and never the text it inserts. Take a template of text and placeholders, and a
  context whose keys are identifiers and whose values have no dollar sign and are
  themselves made of text and placeholders. If no value holds the placeholder of a key
  that is processed after its own, every placeholder of the template whose key is in
  the context is replaced by the value as it is, placeholders in it included, and
  nothing of a value is expanded again. (A value with the placeholder of a later key
  is expanded by that key's step: see the counterexample.)
\<close>

theorem value_without_later_placeholder_verbatim:
  assumes "list_all wf_piece ps" and "pieces_context parts ctx"
  shows "replaceVariables (JStr (flatten ps)) ctx
         = Inr (JStr (flatten (map (fill_all ctx (object_keys ctx)) ps)))"
proof -
  have a: "\<forall>k\<in>set (object_keys ctx). plain_key k \<and> CHR ''$'' \<notin> set (value_text ctx k)
              \<and> list_all wf_piece (parts k) \<and> flatten (parts k) = value_text ctx k"
    and b: "no_later_holes parts (object_keys ctx)"
    using assms(2) by (simp_all add: pieces_context_def list_all_iff)
  show ?thesis
    by (simp add: replaceVariables_def fold_steps_values[OF a b assms(1)])
qed

text \<open>
  The theorem of C3 at a context whose first value holds the placeholder of a key that
  is absent and the placeholder of its own key, before a second key: the value is in
  the output as it is.
\<close>

theorem value_without_later_placeholder_verbatim_witness:
  "list_all wf_piece [Text ''see '', Hole ''a'']
   \<and> pieces_context (\<lambda>key. if key = ''a'' then [Hole ''x'', Hole ''a''] else [Text ''Y''])
        [(''a'', JStr ''{{x}}{{a}}''), (''b'', JStr ''Y'')]
   \<and> replaceVariables (JStr ''see {{a}}'') [(''a'', JStr ''{{x}}{{a}}''), (''b'', JStr ''Y'')]
      = Inr (JStr ''see {{x}}{{a}}'')"
proof -
  let ?parts = "\<lambda>key. if key = ''a'' then [Hole ''x'', Hole ''a''] else [Text ''Y'']"
  let ?ctx = "[(''a'', JStr ''{{x}}{{a}}''), (''b'', JStr ''Y'')]"
  have wf: "list_all wf_piece [Text ''see '', Hole ''a'']"
    by (simp add: plain_key_def ident_char_def)
  have keys: "object_keys ?ctx = [''a'', ''b'']"
    by (simp add: object_keys_def)
  have va: "value_text ?ctx ''a'' = ''{{x}}{{a}}''" and vb: "value_text ?ctx ''b'' = ''Y''"
    by (simp_all add: value_text_def js_get_def js_or_def)
  have pc: "pieces_context ?parts ?ctx"
    unfolding pieces_context_def keys
    by (simp add: va vb plain_key_def ident_char_def flatten_def placeholder_def)
  have "flatten (map (fill_all ?ctx (object_keys ?ctx)) [Text ''see '', Hole ''a'']) = ''see {{x}}{{a}}''"
    unfolding keys by (simp add: va flatten_def)
  moreover have "flatten [Text ''see '', Hole ''a''] = ''see {{a}}''"
    by (simp add: flatten_def placeholder_def)
  ultimately show ?thesis
    using wf pc value_without_later_placeholder_verbatim[OF wf pc] by simp
qed

text \<open>
  Claim C3 as it is written fails: the value of \<^verbatim>\<open>a\<close> holds the placeholder of the
  later key \<^verbatim>\<open>b\<close>, and the step of \<^verbatim>\<open>b\<close> expands it.
\<close>

theorem value_reexpanded_counterexample:
  "replaceVariables (JStr ''{{a}}'') [(''a'', JStr ''{{b}}''), (''b'', JStr ''X'')] = Inr (JStr ''X'')
   \<and> replaceVariables (JStr ''{{a}}'') [(''a'', JStr ''{{b}}''), (''b'', JStr ''X'')] \<noteq> Inr (JStr ''{{b}}'')"
  by (simp add: replaceVariables_def replace_step_def object_keys_def js_get_def js_or_def
      placeholder_def replace_g.simps(2))

lemma js_or_idem: "js_or (js_or x (JStr [])) (JStr []) = js_or x (JStr [])"
  by (simp add: js_or_def)

lemma js_get_map_or:
  "js_get (map (\<lambda>(k, x). (k, js_or x (JStr []))) ctx) key
   = (if key \<in> set (object_keys ctx) then js_or (js_get ctx key) (JStr []) else JUndefined)"
  by (induction ctx) (auto simp: js_get_def object_keys_def)

text \<open>
  Claim C10. The replacement is \<^verbatim>\<open>ctx[key] || ''\<close>: rendering with a context is
  rendering with the context whose falsy values (0, the empty string, null, undefined,
  false) are turned into the empty string; and with a falsy value every placeholder of
  the key is replaced by the empty string.
\<close>

theorem falsy_value_renders_empty:
  "replaceVariables template ctx
     = replaceVariables template (map (\<lambda>(k, x). (k, js_or x (JStr []))) ctx)
   \<and> (plain_key key \<and> list_all wf_piece ps \<and> \<not> truthy v \<longrightarrow>
        replaceVariables (JStr (flatten ps)) [(key, v)] = Inr (JStr (flatten (map (fill key []) ps))))"
proof
  let ?c' = "map (\<lambda>(k, x). (k, js_or x (JStr []))) ctx"
  have keys: "object_keys ?c' = object_keys ctx"
    by (induction ctx) (auto simp: object_keys_def)
  have "\<forall>k\<in>set (object_keys ctx). replace_step ctx k = replace_step ?c' k"
    by (auto simp: replace_step_def js_get_map_or js_or_idem)
  then have "fold (replace_step ctx) (object_keys ctx) t
             = fold (replace_step ?c') (object_keys ctx) t" for t
    by (intro fold_cong) auto
  then show "replaceVariables template ctx = replaceVariables template ?c'"
    by (simp add: replaceVariables_def keys split: jsval.splits)
next
  show "plain_key key \<and> list_all wf_piece ps \<and> \<not> truthy v \<longrightarrow>
        replaceVariables (JStr (flatten ps)) [(key, v)] = Inr (JStr (flatten (map (fill key []) ps)))"
  proof
    assume a: "plain_key key \<and> list_all wf_piece ps \<and> \<not> truthy v"
    then have "replace_g (placeholder key) [] [] (flatten ps) = flatten (map (fill key []) ps)"
      by (intro replace_g_pieces) auto
    with a show "replaceVariables (JStr (flatten ps)) [(key, v)] = Inr (JStr (flatten (map (fill key []) ps)))"
      by (simp add: replaceVariables_def object_keys_def replace_step_def js_get_def js_or_def)
  qed
qed

text \<open>
  The theorem of C10 at a quantity of 0: the placeholder renders as the empty string,
  not as \<^verbatim>\<open>0\<close>.
\<close>

theorem falsy_value_renders_empty_witness:
  "plain_key ''quantity'' \<and> list_all wf_piece [Hole ''quantity''] \<and> \<not> truthy (JNum 0)
   \<and> replaceVariables (JStr ''{{quantity}}'') [(''quantity'', JNum 0)] = Inr (JStr [])
   \<and> replaceVariables (JStr ''{{quantity}}'') [(''quantity'', JNum 0)] \<noteq> Inr (JStr ''0'')"
  using falsy_value_renders_empty[of "JStr ''{{quantity}}''" "[(''quantity'', JNum 0)]" "''quantity''" "[Hole ''quantity'']" "JNum 0", THEN conjunct2]
  by (simp add: plain_key_def ident_char_def flatten_def placeholder_def)

section \<open>Properties of the executor and the dispatcher\<close>

lemma same_tables_refl: "same_tables w w"
  by (simp add: same_tables_def)

lemma same_tables_trans: "same_tables w w' \<Longrightarrow> same_tables w' w'' \<Longrightarrow> same_tables w w''"
  by (simp add: same_tables_def)

lemma try_catch_None: "fst (try_catch msg r) = None"
  by (simp add: try_catch_def split: prod.splits option.splits)

lemma executeAutomation_None: "fst (executeAutomation e a c w) = None"
  by (simp add: executeAutomation_def try_catch_None)

lemma executeAutomation_same_tables: "same_tables w (snd (executeAutomation e a c w))"
  by (auto simp: executeAutomation_def executeAutomation_body_def try_catch_def console_error_def
      sendEmail_def sendSMS_def alert_create_def same_tables_def Let_def
      split: AutomationAction.splits sum.splits prod.splits option.splits if_splits)

lemma executeAutomation_logs:
  "exec_log (snd (executeAutomation e a c w)) = exec_log w @ [(a, c)]"
  "dispatch_log (snd (executeAutomation e a c w)) = dispatch_log w"
  by (auto simp: executeAutomation_def executeAutomation_body_def try_catch_def console_error_def
      sendEmail_def sendSMS_def alert_create_def Let_def
      split: AutomationAction.splits sum.splits prod.splits option.splits if_splits)

lemma executeAutomation_alerts_prefix: "prefix (alerts w) (alerts (snd (executeAutomation e a c w)))"
  by (auto simp: executeAutomation_def executeAutomation_body_def try_catch_def console_error_def
      sendEmail_def sendSMS_def alert_create_def Let_def
      split: AutomationAction.splits sum.splits prod.splits option.splits if_splits)

lemma executeAutomation_formSubmissions: "formSubmissions (snd (executeAutomation e a c w)) = formSubmissions w"
  using executeAutomation_same_tables[of w e a c] by (simp add: same_tables_def)

lemma for_each_total:
  assumes "\<And>x w. fst (f x w) = None"
  shows "for_each f xs w = (None, fold (\<lambda>x w. snd (f x w)) xs w)"
proof (induction xs arbitrary: w)
  case Nil
  then show ?case by simp
next
  case (Cons x xs)
  obtain w' where "f x w = (None, w')" using assms[of x w] by (cases "f x w") auto
  then show ?case using Cons by simp
qed

lemma execute_all:
  "for_each (\<lambda>a. executeAutomation e a c) rs w = (None, fold (\<lambda>a w. snd (executeAutomation e a c w)) rs w)"
  by (rule for_each_total) (rule executeAutomation_None)

lemma execute_all_exec_log:
  "exec_log (fold (\<lambda>a w. snd (executeAutomation e a c w)) rs w) = exec_log w @ map (\<lambda>a. (a, c)) rs"
  by (induction rs arbitrary: w) (simp_all add: executeAutomation_logs)

lemma execute_all_dispatch_log:
  "dispatch_log (fold (\<lambda>a w. snd (executeAutomation e a c w)) rs w) = dispatch_log w"
  by (induction rs arbitrary: w) (simp_all add: executeAutomation_logs)

lemma execute_all_same_tables:
  "same_tables w (fold (\<lambda>a w. snd (executeAutomation e a c w)) rs w)"
proof (induction rs arbitrary: w)
  case Nil
  then show ?case by (simp add: same_tables_refl)
next
  case (Cons a rs)
  show ?case
    using same_tables_trans[OF executeAutomation_same_tables Cons] by simp
qed

lemma execute_all_alerts_prefix:
  "prefix (alerts w) (alerts (fold (\<lambda>a w. snd (executeAutomation e a c w)) rs w))"
proof (induction rs arbitrary: w)
  case Nil
  then show ?case by simp
next
  case (Cons a rs)
  show ?case
    using prefix_order.trans[OF executeAutomation_alerts_prefix Cons] by simp
qed

lemma triggerAutomation_eq:
  "triggerAutomation e wid trig c w =
     (None, (if db_fails e (FindAutomations wid trig) then console_error ''Error triggering automation:'' else (\<lambda>w. w))
        (fold (\<lambda>a w. snd (executeAutomation e a c w)) (dispatched e wid trig w)
              (w\<lparr>dispatch_log := dispatch_log w @ [(wid, trig, c)]\<rparr>)))"
  by (simp add: triggerAutomation_def dispatched_def execute_all try_catch_def Let_def)

lemma triggerAutomation_None: "fst (triggerAutomation e wid trig c w) = None"
  by (simp add: triggerAutomation_eq)

lemma triggerAutomation_exec_log:
  "exec_log (snd (triggerAutomation e wid trig c w)) = exec_log w @ map (\<lambda>a. (a, c)) (dispatched e wid trig w)"
  by (simp add: triggerAutomation_eq execute_all_exec_log console_error_def)

lemma triggerAutomation_dispatch_log:
  "dispatch_log (snd (triggerAutomation e wid trig c w)) = dispatch_log w @ [(wid, trig, c)]"
  by (simp add: triggerAutomation_eq execute_all_dispatch_log console_error_def)

lemma triggerAutomation_same_tables: "same_tables w (snd (triggerAutomation e wid trig c w))"
  using execute_all_same_tables[of "w\<lparr>dispatch_log := dispatch_log w @ [(wid, trig, c)]\<rparr>" e c "dispatched e wid trig w"]
  by (simp add: triggerAutomation_eq console_error_def same_tables_def)

lemma triggerAutomation_alerts_prefix: "prefix (alerts w) (alerts (snd (triggerAutomation e wid trig c w)))"
  using execute_all_alerts_prefix[of "w\<lparr>dispatch_log := dispatch_log w @ [(wid, trig, c)]\<rparr>" e c "dispatched e wid trig w"]
  by (simp add: triggerAutomation_eq console_error_def)


lemma executeAutomation_calls_prefix:
  "prefix (email_calls w) (email_calls (snd (executeAutomation e a c w)))"
  "prefix (sms_calls w) (sms_calls (snd (executeAutomation e a c w)))"
  by (auto simp: executeAutomation_def executeAutomation_body_def try_catch_def console_error_def
      sendEmail_def sendSMS_def alert_create_def Let_def
      split: AutomationAction.splits sum.splits prod.splits option.splits if_splits)

lemma execute_all_calls_prefix:
  "prefix (email_calls w) (email_calls (fold (\<lambda>a w. snd (executeAutomation e a c w)) rs w))
   \<and> prefix (sms_calls w) (sms_calls (fold (\<lambda>a w. snd (executeAutomation e a c w)) rs w))"
proof (induction rs arbitrary: w)
  case Nil
  then show ?case by simp
next
  case (Cons a rs)
  show ?case
    using prefix_order.trans[OF executeAutomation_calls_prefix(1)[of w e a c]]
      prefix_order.trans[OF executeAutomation_calls_prefix(2)[of w e a c]] Cons[of "snd (executeAutomation e a c w)"]
    by simp
qed

lemma alert_row_now: "now w' = now w \<Longrightarrow> alert_row a c t m w' = alert_row a c t m w"
  by (simp add: alert_row_def)

lemma executeAutomation_creates_alert:
  assumes "rule_action a = CREATE_ALERT"
    and "replaceVariables (js_get (rule_config a) ''title'') c = Inr title"
    and "replaceVariables (js_get (rule_config a) ''message'') c = Inr message"
    and "\<not> db_fails e (CreateAlert (alert_row a c title message w))"
  shows "alerts (snd (executeAutomation e a c w)) = alerts w @ [alert_row a c title message w]"
  using assms
  by (simp add: executeAutomation_def executeAutomation_body_def try_catch_def alert_create_def
      alert_row_def Let_def)

lemma executeAutomation_sends_email:
  assumes "rule_action a = SEND_EMAIL" and "truthy (js_get c ''email'')"
    and "replaceVariables (js_get (rule_config a) ''body'') c = Inr body"
  shows "email_calls (snd (executeAutomation e a c w)) = email_calls w @
           [\<lparr>email_to = js_get c ''email'',
             email_subject = js_or (js_get (rule_config a) ''subject'') (JStr ''Notification''),
             email_body = body\<rparr>]"
  using assms
  by (simp add: executeAutomation_def executeAutomation_body_def try_catch_def sendEmail_def
      console_error_def Let_def)

lemma executeAutomation_sends_sms:
  assumes "rule_action a = SEND_SMS" and "truthy (js_get c ''phone'')"
    and "replaceVariables (js_get (rule_config a) ''message'') c = Inr message"
  shows "sms_calls (snd (executeAutomation e a c w)) = sms_calls w @
           [\<lparr>sms_to = js_get c ''phone'', sms_message = message\<rparr>]"
  using assms
  by (simp add: executeAutomation_def executeAutomation_body_def try_catch_def sendSMS_def
      console_error_def Let_def)

lemma execute_all_now: "now (fold (\<lambda>a w. snd (executeAutomation e a c w)) rs w) = now w"
  using execute_all_same_tables[of w e c rs] by (simp add: same_tables_def)

lemma execute_all_effects:
  assumes "r \<in> set rs"
  shows "(rule_action r = CREATE_ALERT
           \<and> replaceVariables (js_get (rule_config r) ''title'') c = Inr title
           \<and> replaceVariables (js_get (rule_config r) ''message'') c = Inr message
           \<and> \<not> db_fails e (CreateAlert (alert_row r c title message w))
          \<longrightarrow> alert_row r c title message w \<in> set (alerts (fold (\<lambda>a w. snd (executeAutomation e a c w)) rs w)))
       \<and> (rule_action r = SEND_EMAIL \<and> truthy (js_get c ''email'')
           \<and> replaceVariables (js_get (rule_config r) ''body'') c = Inr body
          \<longrightarrow> \<lparr>email_to = js_get c ''email'',
                 email_subject = js_or (js_get (rule_config r) ''subject'') (JStr ''Notification''),
                 email_body = body\<rparr>
               \<in> set (email_calls (fold (\<lambda>a w. snd (executeAutomation e a c w)) rs w)))
       \<and> (rule_action r = SEND_SMS \<and> truthy (js_get c ''phone'')
           \<and> replaceVariables (js_get (rule_config r) ''message'') c = Inr message
          \<longrightarrow> \<lparr>sms_to = js_get c ''phone'', sms_message = message\<rparr>
               \<in> set (sms_calls (fold (\<lambda>a w. snd (executeAutomation e a c w)) rs w)))"
  using assms
proof (induction rs arbitrary: w)
  case Nil
  then show ?case by simp
next
  case (Cons a rs)
  let ?w1 = "snd (executeAutomation e a c w)"
  let ?rest = "\<lambda>w. fold (\<lambda>a w. snd (executeAutomation e a c w)) rs w"
  have now1: "now ?w1 = now w"
    using executeAutomation_same_tables[of w e a c] by (simp add: same_tables_def)
  show ?case
  proof (cases "r = a")
    case True
    have pa: "set (alerts ?w1) \<subseteq> set (alerts (?rest ?w1))"
      by (rule set_mono_prefix) (rule execute_all_alerts_prefix)
    have pe: "set (email_calls ?w1) \<subseteq> set (email_calls (?rest ?w1))"
      by (rule set_mono_prefix) (simp add: execute_all_calls_prefix)
    have ps: "set (sms_calls ?w1) \<subseteq> set (sms_calls (?rest ?w1))"
      by (rule set_mono_prefix) (simp add: execute_all_calls_prefix)
    show ?thesis
      using True pa pe ps executeAutomation_creates_alert[of a c title message e w]
        executeAutomation_sends_email[of a c body e w] executeAutomation_sends_sms[of a c message e w]
      by auto
  next
    case False
    then have "r \<in> set rs" using Cons.prems by simp
    from Cons.IH[OF this, of ?w1] show ?thesis
      by (simp add: alert_row_now[OF now1])
  qed
qed

lemma alerts_added_refl: "alerts_added wid w w"
  by (simp add: alerts_added_def)

lemma alerts_added_trans:
  assumes "alerts_added wid w w'" and "alerts_added wid w' w''"
  shows "alerts_added wid w w''"
proof -
  from assms(1) obtain n1 where n1: "alerts w' = alerts w @ n1" "\<forall>a\<in>set n1. alert_workspaceId a = wid"
    unfolding alerts_added_def by (elim exE conjE)
  from assms(2) obtain n2 where n2: "alerts w'' = alerts w' @ n2" "\<forall>a\<in>set n2. alert_workspaceId a = wid"
    unfolding alerts_added_def by (elim exE conjE)
  have "alerts w'' = alerts w @ (n1 @ n2)" using n1(1) n2(1) by simp
  moreover have "\<forall>a\<in>set (n1 @ n2). alert_workspaceId a = wid" using n1(2) n2(2) by auto
  ultimately show ?thesis unfolding alerts_added_def by blast
qed

lemma executeAutomation_alerts_added:
  "alerts_added (rule_workspaceId a) w (snd (executeAutomation e a c w))"
proof -
  have "alerts (snd (executeAutomation e a c w)) = alerts w
        \<or> (\<exists>row. alerts (snd (executeAutomation e a c w)) = alerts w @ [row]
                 \<and> alert_workspaceId row = rule_workspaceId a)"
    by (auto simp: executeAutomation_def executeAutomation_body_def try_catch_def console_error_def
        sendEmail_def sendSMS_def alert_create_def alert_row_def Let_def
        split: AutomationAction.splits sum.splits prod.splits option.splits if_splits)
  then show ?thesis
  proof
    assume "alerts (snd (executeAutomation e a c w)) = alerts w"
    then show ?thesis by (simp add: alerts_added_def)
  next
    assume "\<exists>row. alerts (snd (executeAutomation e a c w)) = alerts w @ [row]
                 \<and> alert_workspaceId row = rule_workspaceId a"
    then obtain row where "alerts (snd (executeAutomation e a c w)) = alerts w @ [row]"
      "alert_workspaceId row = rule_workspaceId a"
      by (elim exE conjE)
    then show ?thesis
      unfolding alerts_added_def by (intro exI[of _ "[row]"]) simp
  qed
qed

lemma execute_all_alerts_added:
  assumes "\<forall>a\<in>set rs. rule_workspaceId a = wid"
  shows "alerts_added wid w (fold (\<lambda>a w. snd (executeAutomation e a c w)) rs w)"
  using assms
proof (induction rs arbitrary: w)
  case Nil
  show ?case by (simp add: alerts_added_refl)
next
  case (Cons a rs)
  have "alerts_added wid w (snd (executeAutomation e a c w))"
    using executeAutomation_alerts_added[of a w e c] Cons.prems by simp
  moreover have "alerts_added wid (snd (executeAutomation e a c w))
                   (fold (\<lambda>a w. snd (executeAutomation e a c w)) rs (snd (executeAutomation e a c w)))"
    by (rule Cons.IH) (use Cons.prems in simp)
  ultimately show ?case
    using alerts_added_trans by simp
qed

lemma triggerAutomation_alerts_added:
  "alerts_added wid w (snd (triggerAutomation e wid trig c w))"
proof -
  let ?start = "w\<lparr>dispatch_log := dispatch_log w @ [(wid, trig, c)]\<rparr>"
  have "\<forall>a\<in>set (dispatched e wid trig w). rule_workspaceId a = wid"
    by (simp add: dispatched_def rule_matches_def)
  then have "alerts_added wid ?start (fold (\<lambda>a w. snd (executeAutomation e a c w)) (dispatched e wid trig w) ?start)"
    by (rule execute_all_alerts_added)
  then show ?thesis
    by (simp add: alerts_added_def triggerAutomation_eq console_error_def)
qed

lemma dispatched_filter:
  "dispatched e wid trig w
   = (if db_fails e (FindAutomations wid trig) then []
      else filter (\<lambda>a. rule_workspaceId a = wid \<and> rule_trigger a = trig \<and> rule_isActive a)
             (automations w))"
proof -
  have "filter (rule_matches wid trig) (automations w)
        = filter (\<lambda>a. rule_workspaceId a = wid \<and> rule_trigger a = trig \<and> rule_isActive a) (automations w)"
    by (intro filter_cong) (auto simp: rule_matches_def)
  then show ?thesis by (simp add: dispatched_def)
qed

text \<open>
  Claim C1. When the query for the rules succeeds, a dispatch is the run of the
  executor, with the context it was given, over exactly the rules of the table that
  have the workspace and the trigger of the dispatch and are active, once each and in
  the order of the table: the state it leaves is the state these runs leave, one after
  the other, and they are the calls on record. When the query fails, no rule is
  executed and the state changes by the two log lines only. Whether the query succeeds
  or not, every rule the executor is called for is a rule of the table with that
  workspace and trigger that is active, and every alert a dispatch adds belongs to the
  workspace of the dispatch: a rule of another workspace and a rule that is not active
  are never executed.
\<close>

theorem dispatch_executes_matching_rules:
  "(\<not> db_fails e (FindAutomations workspaceId trigger) \<longrightarrow>
      triggerAutomation e workspaceId trigger ctx w
      = (None, fold (\<lambda>a w. snd (executeAutomation e a ctx w))
                 (filter (\<lambda>a. rule_workspaceId a = workspaceId \<and> rule_trigger a = trigger \<and> rule_isActive a)
                    (automations w))
                 (w\<lparr>dispatch_log := dispatch_log w @ [(workspaceId, trigger, ctx)]\<rparr>))
      \<and> exec_log (snd (triggerAutomation e workspaceId trigger ctx w))
        = exec_log w @ map (\<lambda>a. (a, ctx))
          (filter (\<lambda>a. rule_workspaceId a = workspaceId \<and> rule_trigger a = trigger \<and> rule_isActive a)
             (automations w)))
   \<and> (db_fails e (FindAutomations workspaceId trigger) \<longrightarrow>
      triggerAutomation e workspaceId trigger ctx w
      = (None, w\<lparr>dispatch_log := dispatch_log w @ [(workspaceId, trigger, ctx)],
                 error_log := error_log w @ [''Error triggering automation:'']\<rparr>))
   \<and> (\<exists>rs. exec_log (snd (triggerAutomation e workspaceId trigger ctx w))
            = exec_log w @ map (\<lambda>a. (a, ctx)) rs
          \<and> (\<forall>a\<in>set rs. a \<in> set (automations w) \<and> rule_workspaceId a = workspaceId
                         \<and> rule_trigger a = trigger \<and> rule_isActive a))
   \<and> (\<exists>new. alerts (snd (triggerAutomation e workspaceId trigger ctx w)) = alerts w @ new
          \<and> (\<forall>a\<in>set new. alert_workspaceId a = workspaceId))"
proof (intro conjI impI)
  assume ok: "\<not> db_fails e (FindAutomations workspaceId trigger)"
  then have d: "dispatched e workspaceId trigger w
     = filter (\<lambda>a. rule_workspaceId a = workspaceId \<and> rule_trigger a = trigger \<and> rule_isActive a) (automations w)"
    by (simp add: dispatched_filter)
  show "triggerAutomation e workspaceId trigger ctx w
      = (None, fold (\<lambda>a w. snd (executeAutomation e a ctx w))
                 (filter (\<lambda>a. rule_workspaceId a = workspaceId \<and> rule_trigger a = trigger \<and> rule_isActive a)
                    (automations w))
                 (w\<lparr>dispatch_log := dispatch_log w @ [(workspaceId, trigger, ctx)]\<rparr>))"
    using ok by (simp add: triggerAutomation_eq d)
  show "exec_log (snd (triggerAutomation e workspaceId trigger ctx w))
      = exec_log w @ map (\<lambda>a. (a, ctx))
          (filter (\<lambda>a. rule_workspaceId a = workspaceId \<and> rule_trigger a = trigger \<and> rule_isActive a)
             (automations w))"
    using d by (simp only: triggerAutomation_exec_log)
next
  assume "db_fails e (FindAutomations workspaceId trigger)"
  then show "triggerAutomation e workspaceId trigger ctx w
      = (None, w\<lparr>dispatch_log := dispatch_log w @ [(workspaceId, trigger, ctx)],
                 error_log := error_log w @ [''Error triggering automation:'']\<rparr>)"
    by (simp add: triggerAutomation_eq dispatched_def console_error_def)
next
  have m: "\<forall>a\<in>set (dispatched e workspaceId trigger w). a \<in> set (automations w)
          \<and> rule_workspaceId a = workspaceId \<and> rule_trigger a = trigger \<and> rule_isActive a"
    by (simp add: dispatched_def rule_matches_def)
  show "\<exists>rs. exec_log (snd (triggerAutomation e workspaceId trigger ctx w))
            = exec_log w @ map (\<lambda>a. (a, ctx)) rs
          \<and> (\<forall>a\<in>set rs. a \<in> set (automations w) \<and> rule_workspaceId a = workspaceId
                         \<and> rule_trigger a = trigger \<and> rule_isActive a)"
    by (rule exI[of _ "dispatched e workspaceId trigger w"]) (use m triggerAutomation_exec_log in blast)
next
  show "\<exists>new. alerts (snd (triggerAutomation e workspaceId trigger ctx w)) = alerts w @ new
          \<and> (\<forall>a\<in>set new. alert_workspaceId a = workspaceId)"
    using triggerAutomation_alerts_added[of workspaceId w e trigger ctx]
    by (simp add: alerts_added_def)
qed

text \<open>
  The theorem of C1 at two workspaces with the same rule, a rule that is not active and
  a rule of another trigger: only the first rule is executed, and the one alert that
  is added is the alert of the first rule, in its workspace.
\<close>

lemma witness_rules:
  "filter (\<lambda>a. rule_workspaceId a = ''W1'' \<and> rule_trigger a = INVENTORY_LOW \<and> rule_isActive a)
     [rule_alert ''r1'' ''W1'' INVENTORY_LOW True, rule_alert ''r2'' ''W2'' INVENTORY_LOW True,
      rule_alert ''r3'' ''W1'' INVENTORY_LOW False, rule_alert ''r4'' ''W1'' FORM_PENDING True]
   = [rule_alert ''r1'' ''W1'' INVENTORY_LOW True]"
  by (simp add: rule_alert_def)

lemma render_ctx_gloves:
  "replaceVariables (JStr ''{{itemName}} low'') ctx_gloves = Inr (JStr ''Gloves low'')"
  "replaceVariables (JStr ''{{itemName}}: only {{quantity}} left'') ctx_gloves
   = Inr (JStr ''Gloves: only 3 left'')"
  by (simp_all add: replaceVariables_def replace_step_def object_keys_def js_get_def js_or_def
      placeholder_def replace_g.simps(2) ctx_gloves_def string_of_nat.simps)

theorem dispatch_executes_matching_rules_witness:
  "\<not> db_fails env_ok (FindAutomations ''W1'' INVENTORY_LOW)
   \<and> exec_log (snd (triggerAutomation env_ok ''W1'' INVENTORY_LOW ctx_gloves world_four_rules))
     = [(rule_alert ''r1'' ''W1'' INVENTORY_LOW True, ctx_gloves)]
   \<and> alerts (snd (triggerAutomation env_ok ''W1'' INVENTORY_LOW ctx_gloves world_four_rules))
     = [\<lparr>alert_workspaceId = ''W1'', alert_type = JStr ''LOW_INVENTORY'',
         alert_priority = JStr ''MEDIUM'', alert_title = JStr ''Gloves low'',
         alert_message = JStr ''Gloves: only 3 left'', alert_linkTo = JNull,
         alert_isRead = False, alert_createdAt = 1767312000000\<rparr>]"
proof -
  let ?w = "world_four_rules"
  let ?r = "rule_alert ''r1'' ''W1'' INVENTORY_LOW True"
  let ?v = "?w\<lparr>dispatch_log := dispatch_log ?w @ [(''W1'', INVENTORY_LOW, ctx_gloves)]\<rparr>"
  have ok: "\<not> db_fails env_ok (FindAutomations ''W1'' INVENTORY_LOW)"
    by (simp add: env_ok_def)
  have el: "exec_log ?w = []" and al: "alerts ?v = []" and nw: "now ?v = 1767312000000"
    and au: "automations ?w = [rule_alert ''r1'' ''W1'' INVENTORY_LOW True,
                                 rule_alert ''r2'' ''W2'' INVENTORY_LOW True,
                                 rule_alert ''r3'' ''W1'' INVENTORY_LOW False,
                                 rule_alert ''r4'' ''W1'' FORM_PENDING True]"
    by (simp_all add: world_four_rules_def world0_def)
  note inst = dispatch_executes_matching_rules[of env_ok "''W1''" INVENTORY_LOW ctx_gloves ?w,
      THEN conjunct1, rule_format, OF ok, unfolded au witness_rules]
  have log: "exec_log (snd (triggerAutomation env_ok ''W1'' INVENTORY_LOW ctx_gloves ?w))
      = [(?r, ctx_gloves)]"
    using inst[THEN conjunct2] el by simp
  have run: "snd (triggerAutomation env_ok ''W1'' INVENTORY_LOW ctx_gloves ?w)
      = snd (executeAutomation env_ok ?r ctx_gloves ?v)"
    using inst[THEN conjunct1] by simp
  have a: "rule_action ?r = CREATE_ALERT" by (simp add: rule_alert_def)
  have t: "replaceVariables (js_get (rule_config ?r) ''title'') ctx_gloves = Inr (JStr ''Gloves low'')"
    using render_ctx_gloves(1) by (simp add: rule_alert_def js_get_def)
  have g: "replaceVariables (js_get (rule_config ?r) ''message'') ctx_gloves
           = Inr (JStr ''Gloves: only 3 left'')"
    using render_ctx_gloves(2) by (simp add: rule_alert_def js_get_def)
  have c: "\<not> db_fails env_ok (CreateAlert (alert_row ?r ctx_gloves (JStr ''Gloves low'')
              (JStr ''Gloves: only 3 left'') ?v))"
    by (simp add: env_ok_def)
  have row: "alert_row ?r ctx_gloves (JStr ''Gloves low'') (JStr ''Gloves: only 3 left'') ?v
      = \<lparr>alert_workspaceId = ''W1'', alert_type = JStr ''LOW_INVENTORY'',
         alert_priority = JStr ''MEDIUM'', alert_title = JStr ''Gloves low'',
         alert_message = JStr ''Gloves: only 3 left'', alert_linkTo = JNull,
         alert_isRead = False, alert_createdAt = 1767312000000\<rparr>"
    unfolding alert_row_def nw
    by (simp add: rule_alert_def js_get_def js_or_def ctx_gloves_def)
  have "alerts (snd (executeAutomation env_ok ?r ctx_gloves ?v))
        = alerts ?v @ [alert_row ?r ctx_gloves (JStr ''Gloves low'') (JStr ''Gloves: only 3 left'') ?v]"
    by (rule executeAutomation_creates_alert[OF a t g c])
  then have "alerts (snd (triggerAutomation env_ok ''W1'' INVENTORY_LOW ctx_gloves ?w))
     = [\<lparr>alert_workspaceId = ''W1'', alert_type = JStr ''LOW_INVENTORY'',
         alert_priority = JStr ''MEDIUM'', alert_title = JStr ''Gloves low'',
         alert_message = JStr ''Gloves: only 3 left'', alert_linkTo = JNull,
         alert_isRead = False, alert_createdAt = 1767312000000\<rparr>]"
    unfolding run row al by simp
  with ok log show ?thesis by blast
qed

text \<open>
  Claim C6. A rule that sends email, run with a context whose \<^verbatim>\<open>email\<close> is absent
  or empty (any falsy value), returns without an exception and leaves the state as it
  was but for the record of the call: no call of the email channel, nothing logged. The
  same holds for a rule that sends an SMS and a context without \<^verbatim>\<open>phone\<close>.
\<close>

theorem missing_address_skips_send:
  "(rule_action a = SEND_EMAIL \<and> \<not> truthy (js_get ctx ''email'') \<longrightarrow>
      executeAutomation e a ctx w = (None, w\<lparr>exec_log := exec_log w @ [(a, ctx)]\<rparr>)
      \<and> email_calls (snd (executeAutomation e a ctx w)) = email_calls w
      \<and> error_log (snd (executeAutomation e a ctx w)) = error_log w)
   \<and> (rule_action a = SEND_SMS \<and> \<not> truthy (js_get ctx ''phone'') \<longrightarrow>
      executeAutomation e a ctx w = (None, w\<lparr>exec_log := exec_log w @ [(a, ctx)]\<rparr>)
      \<and> sms_calls (snd (executeAutomation e a ctx w)) = sms_calls w
      \<and> error_log (snd (executeAutomation e a ctx w)) = error_log w)"
  by (simp add: executeAutomation_def executeAutomation_body_def try_catch_def)

text \<open>
  The theorem of C6 at a context whose email is the empty string and at a context whose
  phone is null.
\<close>

theorem missing_address_skips_send_witness:
  "rule_action (rule_email ''r1'' ''W1'' BOOKING_REMINDER) = SEND_EMAIL
   \<and> \<not> truthy (js_get [(''contactName'', JStr ''Sam''), (''email'', JStr [])] ''email'')
   \<and> email_calls (snd (executeAutomation env_ok (rule_email ''r1'' ''W1'' BOOKING_REMINDER)
        [(''contactName'', JStr ''Sam''), (''email'', JStr [])] world0)) = []
   \<and> error_log (snd (executeAutomation env_ok (rule_email ''r1'' ''W1'' BOOKING_REMINDER)
        [(''contactName'', JStr ''Sam''), (''email'', JStr [])] world0)) = []
   \<and> rule_action (rule_sms ''r2'' ''W1'' BOOKING_REMINDER) = SEND_SMS
   \<and> \<not> truthy (js_get ctx_sam ''phone'')
   \<and> sms_calls (snd (executeAutomation env_ok (rule_sms ''r2'' ''W1'' BOOKING_REMINDER) ctx_sam world0)) = []"
  using missing_address_skips_send[of "rule_email ''r1'' ''W1'' BOOKING_REMINDER"
      "[(''contactName'', JStr ''Sam''), (''email'', JStr [])]" env_ok world0, THEN conjunct1]
    missing_address_skips_send[of "rule_sms ''r2'' ''W1'' BOOKING_REMINDER" ctx_sam env_ok world0, THEN conjunct2]
  by (simp add: rule_email_def rule_sms_def ctx_sam_def js_get_def world0_def)

text \<open>
  Claim C7, as the code has it. With a truthy \<^verbatim>\<open>ctx.email\<close> and a body that
  renders, the email channel is called once, with the rendered body and with the subject
  \<^verbatim>\<open>config.subject || 'Notification'\<close> as it is configured: the subject does not go
  through the renderer.
\<close>

theorem email_subject_as_configured:
  assumes "rule_action a = SEND_EMAIL" and "truthy (js_get ctx ''email'')"
    and "replaceVariables (js_get (rule_config a) ''body'') ctx = Inr body"
  shows "email_calls (snd (executeAutomation e a ctx w)) = email_calls w @
           [\<lparr>email_to = js_get ctx ''email'',
             email_subject = js_or (js_get (rule_config a) ''subject'') (JStr ''Notification''),
             email_body = body\<rparr>]"
  by (rule executeAutomation_sends_email[OF assms])

text \<open>
  The theorem of C7 at a rule whose subject and body both hold a placeholder, and the
  counterexample to the claim as it is written: the subject that is sent still holds
  the placeholder, and is not the rendered subject.
\<close>

lemma render_dear_sam:
  "replaceVariables (JStr ''Dear {{contactName}}'') ctx_sam = Inr (JStr ''Dear Sam'')"
  by (simp add: replaceVariables_def replace_step_def object_keys_def js_get_def js_or_def
      placeholder_def replace_g.simps(2) ctx_sam_def)

lemma render_hello_sam:
  "replaceVariables (JStr ''Hello {{contactName}}'') ctx_sam = Inr (JStr ''Hello Sam'')"
  by (simp add: replaceVariables_def replace_step_def object_keys_def js_get_def js_or_def
      placeholder_def replace_g.simps(2) ctx_sam_def)

theorem email_subject_as_configured_witness:
  "rule_action (rule_email ''r1'' ''W1'' BOOKING_REMINDER) = SEND_EMAIL
   \<and> truthy (js_get ctx_sam ''email'')
   \<and> email_calls (snd (executeAutomation env_ok (rule_email ''r1'' ''W1'' BOOKING_REMINDER) ctx_sam world0))
     = [\<lparr>email_to = JStr ''sam@example.com'', email_subject = JStr ''Hello {{contactName}}'',
          email_body = JStr ''Dear Sam''\<rparr>]"
proof -
  have a: "rule_action (rule_email ''r1'' ''W1'' BOOKING_REMINDER) = SEND_EMAIL"
    by (simp add: rule_email_def)
  have t: "truthy (js_get ctx_sam ''email'')"
    by (simp add: ctx_sam_def js_get_def)
  have b: "replaceVariables (js_get (rule_config (rule_email ''r1'' ''W1'' BOOKING_REMINDER)) ''body'') ctx_sam
           = Inr (JStr ''Dear Sam'')"
    using render_dear_sam by (simp add: rule_email_def js_get_def)
  show ?thesis
    using a t email_subject_as_configured[OF a t b, of env_ok world0]
    by (simp add: rule_email_def js_get_def js_or_def ctx_sam_def world0_def)
qed

text \<open>
  Claim C7 as it is written fails: the subject of the call is the configured text.
\<close>

theorem email_subject_rendered_counterexample:
  "email_subject (last (email_calls (snd (executeAutomation env_ok
      (rule_email ''r1'' ''W1'' BOOKING_REMINDER) ctx_sam world0)))) = JStr ''Hello {{contactName}}''
   \<and> replaceVariables (js_get (rule_config (rule_email ''r1'' ''W1'' BOOKING_REMINDER)) ''subject'') ctx_sam
     = Inr (JStr ''Hello Sam'')"
proof -
  have "email_calls (snd (executeAutomation env_ok (rule_email ''r1'' ''W1'' BOOKING_REMINDER) ctx_sam world0))
     = [\<lparr>email_to = JStr ''sam@example.com'', email_subject = JStr ''Hello {{contactName}}'',
          email_body = JStr ''Dear Sam''\<rparr>]"
    using executeAutomation_sends_email[of "rule_email ''r1'' ''W1'' BOOKING_REMINDER" ctx_sam "JStr ''Dear Sam''" env_ok world0]
      render_dear_sam
    by (simp add: rule_email_def js_get_def js_or_def ctx_sam_def world0_def)
  then show ?thesis
    using render_hello_sam by (simp add: rule_email_def js_get_def)
qed

lemma triggerAutomation_effects:
  "alerts (snd (triggerAutomation e wid trig c w))
     = alerts (fold (\<lambda>a w. snd (executeAutomation e a c w)) (dispatched e wid trig w)
              (w\<lparr>dispatch_log := dispatch_log w @ [(wid, trig, c)]\<rparr>))"
  "email_calls (snd (triggerAutomation e wid trig c w))
     = email_calls (fold (\<lambda>a w. snd (executeAutomation e a c w)) (dispatched e wid trig w)
              (w\<lparr>dispatch_log := dispatch_log w @ [(wid, trig, c)]\<rparr>))"
  "sms_calls (snd (triggerAutomation e wid trig c w))
     = sms_calls (fold (\<lambda>a w. snd (executeAutomation e a c w)) (dispatched e wid trig w)
              (w\<lparr>dispatch_log := dispatch_log w @ [(wid, trig, c)]\<rparr>))"
  by (simp_all add: triggerAutomation_eq console_error_def)

text \<open>
  Claim C5. A dispatch never returns an exception. When its query succeeds, every rule
  that matches is executed, whatever the rules before it did, and its effect is there
  afterwards: the alert row of a rule that creates an alert (when its templates render
  and the insert succeeds), the call of the email channel of a rule that sends email,
  the call of the SMS channel of a rule that sends an SMS. An exception in one rule, be
  it from a template, a channel or the insert, is caught in the executor and does not
  touch the rules after it.
\<close>

theorem rule_failures_are_isolated:
  "fst (triggerAutomation e workspaceId trigger ctx w) = None
   \<and> (\<not> db_fails e (FindAutomations workspaceId trigger) \<and> r \<in> set (automations w)
        \<and> rule_workspaceId r = workspaceId \<and> rule_trigger r = trigger \<and> rule_isActive r
      \<longrightarrow> (r, ctx) \<in> set (exec_log (snd (triggerAutomation e workspaceId trigger ctx w)))
        \<and> (rule_action r = CREATE_ALERT
             \<and> replaceVariables (js_get (rule_config r) ''title'') ctx = Inr title
             \<and> replaceVariables (js_get (rule_config r) ''message'') ctx = Inr message
             \<and> \<not> db_fails e (CreateAlert (alert_row r ctx title message w))
            \<longrightarrow> alert_row r ctx title message w
                  \<in> set (alerts (snd (triggerAutomation e workspaceId trigger ctx w))))
        \<and> (rule_action r = SEND_EMAIL \<and> truthy (js_get ctx ''email'')
             \<and> replaceVariables (js_get (rule_config r) ''body'') ctx = Inr body
            \<longrightarrow> \<lparr>email_to = js_get ctx ''email'',
                   email_subject = js_or (js_get (rule_config r) ''subject'') (JStr ''Notification''),
                   email_body = body\<rparr>
                  \<in> set (email_calls (snd (triggerAutomation e workspaceId trigger ctx w))))
        \<and> (rule_action r = SEND_SMS \<and> truthy (js_get ctx ''phone'')
             \<and> replaceVariables (js_get (rule_config r) ''message'') ctx = Inr message
            \<longrightarrow> \<lparr>sms_to = js_get ctx ''phone'', sms_message = message\<rparr>
                  \<in> set (sms_calls (snd (triggerAutomation e workspaceId trigger ctx w)))))"
proof (intro conjI impI)
  show "fst (triggerAutomation e workspaceId trigger ctx w) = None"
    by (rule triggerAutomation_None)
next
  assume a: "\<not> db_fails e (FindAutomations workspaceId trigger) \<and> r \<in> set (automations w)
        \<and> rule_workspaceId r = workspaceId \<and> rule_trigger r = trigger \<and> rule_isActive r"
  then have m: "rule_matches workspaceId trigger r" by (simp add: rule_matches_def)
  let ?start = "w\<lparr>dispatch_log := dispatch_log w @ [(workspaceId, trigger, ctx)]\<rparr>"
  note t = triggerAutomation_effects[of e workspaceId trigger ctx w]
  have r: "r \<in> set (dispatched e workspaceId trigger w)" using a m by (simp add: dispatched_def)
  have row: "alert_row r ctx title message ?start = alert_row r ctx title message w"
    by (simp add: alert_row_def)
  note eff = execute_all_effects[OF r, of ctx title message e ?start body, unfolded row]
  show "(r, ctx) \<in> set (exec_log (snd (triggerAutomation e workspaceId trigger ctx w)))"
    using r by (simp add: triggerAutomation_exec_log)
  {
    assume "rule_action r = CREATE_ALERT
             \<and> replaceVariables (js_get (rule_config r) ''title'') ctx = Inr title
             \<and> replaceVariables (js_get (rule_config r) ''message'') ctx = Inr message
             \<and> \<not> db_fails e (CreateAlert (alert_row r ctx title message w))"
    then show "alert_row r ctx title message w
                  \<in> set (alerts (snd (triggerAutomation e workspaceId trigger ctx w)))"
      using eff t(1) by simp
  }
  {
    assume "rule_action r = SEND_EMAIL \<and> truthy (js_get ctx ''email'')
             \<and> replaceVariables (js_get (rule_config r) ''body'') ctx = Inr body"
    then show "\<lparr>email_to = js_get ctx ''email'',
                   email_subject = js_or (js_get (rule_config r) ''subject'') (JStr ''Notification''),
                   email_body = body\<rparr>
                  \<in> set (email_calls (snd (triggerAutomation e workspaceId trigger ctx w)))"
      using eff t(2) by simp
  }
  {
    assume "rule_action r = SEND_SMS \<and> truthy (js_get ctx ''phone'')
             \<and> replaceVariables (js_get (rule_config r) ''message'') ctx = Inr message"
    then show "\<lparr>sms_to = js_get ctx ''phone'', sms_message = message\<rparr>
                  \<in> set (sms_calls (snd (triggerAutomation e workspaceId trigger ctx w)))"
      using eff t(3) by simp
  }
qed

text \<open>
  The theorem of C5 where the email provider is down: the first rule calls the channel,
  which throws, and the alert of the second rule is in the table afterwards.
\<close>

lemma render_absent_title:
  "replaceVariables (JStr ''{{itemName}} low'') ctx_sam = Inr (JStr ''{{itemName}} low'')"
  by (simp add: replaceVariables_def replace_step_def object_keys_def js_get_def js_or_def
      placeholder_def replace_g.simps(2) ctx_sam_def)

lemma render_absent_message:
  "replaceVariables (JStr ''{{itemName}}: only {{quantity}} left'') ctx_sam
   = Inr (JStr ''{{itemName}}: only {{quantity}} left'')"
  by (simp add: replaceVariables_def replace_step_def object_keys_def js_get_def js_or_def
      placeholder_def replace_g.simps(2) ctx_sam_def)

theorem rule_failures_are_isolated_witness:
  "\<not> db_fails env_email_down (FindAutomations ''W1'' BOOKING_REMINDER)
   \<and> email_fails env_email_down
        \<lparr>email_to = JStr ''sam@example.com'', email_subject = JStr ''Hello {{contactName}}'',
         email_body = JStr ''Dear Sam''\<rparr>
   \<and> \<lparr>email_to = JStr ''sam@example.com'', email_subject = JStr ''Hello {{contactName}}'',
         email_body = JStr ''Dear Sam''\<rparr>
      \<in> set (email_calls (snd (triggerAutomation env_email_down ''W1'' BOOKING_REMINDER ctx_sam world_two_rules)))
   \<and> fst (triggerAutomation env_email_down ''W1'' BOOKING_REMINDER ctx_sam world_two_rules) = None
   \<and> \<lparr>alert_workspaceId = ''W1'', alert_type = JStr ''LOW_INVENTORY'',
        alert_priority = JStr ''MEDIUM'', alert_title = JStr ''{{itemName}} low'',
        alert_message = JStr ''{{itemName}}: only {{quantity}} left'', alert_linkTo = JNull,
        alert_isRead = False, alert_createdAt = 1767312000000\<rparr>
      \<in> set (alerts (snd (triggerAutomation env_email_down ''W1'' BOOKING_REMINDER ctx_sam world_two_rules)))"
proof -
  let ?r = "rule_alert ''r2'' ''W1'' BOOKING_REMINDER True"
  have ok: "\<not> db_fails env_email_down (FindAutomations ''W1'' BOOKING_REMINDER)"
    by (simp add: env_email_down_def env_ok_def)
  have down: "email_fails env_email_down
        \<lparr>email_to = JStr ''sam@example.com'', email_subject = JStr ''Hello {{contactName}}'',
         email_body = JStr ''Dear Sam''\<rparr>"
    by (simp add: env_email_down_def env_ok_def)
  have r: "?r \<in> set (automations world_two_rules)"
    by (simp add: world_two_rules_def world0_def)
  have m: "rule_workspaceId ?r = ''W1'' \<and> rule_trigger ?r = BOOKING_REMINDER \<and> rule_isActive ?r"
    and a: "rule_action ?r = CREATE_ALERT"
    by (simp_all add: rule_alert_def)
  have t: "replaceVariables (js_get (rule_config ?r) ''title'') ctx_sam = Inr (JStr ''{{itemName}} low'')"
    using render_absent_title by (simp add: rule_alert_def js_get_def)
  have g: "replaceVariables (js_get (rule_config ?r) ''message'') ctx_sam
           = Inr (JStr ''{{itemName}}: only {{quantity}} left'')"
    using render_absent_message by (simp add: rule_alert_def js_get_def)
  have row: "alert_row ?r ctx_sam (JStr ''{{itemName}} low'') (JStr ''{{itemName}}: only {{quantity}} left'') world_two_rules
      = \<lparr>alert_workspaceId = ''W1'', alert_type = JStr ''LOW_INVENTORY'',
        alert_priority = JStr ''MEDIUM'', alert_title = JStr ''{{itemName}} low'',
        alert_message = JStr ''{{itemName}}: only {{quantity}} left'', alert_linkTo = JNull,
        alert_isRead = False, alert_createdAt = 1767312000000\<rparr>"
    by (simp add: alert_row_def rule_alert_def js_get_def js_or_def ctx_sam_def world_two_rules_def world0_def)
  have c: "\<not> db_fails env_email_down (CreateAlert (alert_row ?r ctx_sam (JStr ''{{itemName}} low'')
              (JStr ''{{itemName}}: only {{quantity}} left'') world_two_rules))"
    by (simp add: env_email_down_def env_ok_def)
  let ?m = "rule_email ''r1'' ''W1'' BOOKING_REMINDER"
  have r1: "?m \<in> set (automations world_two_rules)"
    by (simp add: world_two_rules_def world0_def)
  have m1: "rule_workspaceId ?m = ''W1'' \<and> rule_trigger ?m = BOOKING_REMINDER \<and> rule_isActive ?m"
    and a1: "rule_action ?m = SEND_EMAIL"
    by (simp_all add: rule_email_def)
  have t1: "truthy (js_get ctx_sam ''email'')"
    by (simp add: ctx_sam_def js_get_def)
  have b1: "replaceVariables (js_get (rule_config ?m) ''body'') ctx_sam = Inr (JStr ''Dear Sam'')"
    using render_dear_sam by (simp add: rule_email_def js_get_def)
  have p1: "\<lparr>email_to = js_get ctx_sam ''email'',
             email_subject = js_or (js_get (rule_config ?m) ''subject'') (JStr ''Notification''),
             email_body = JStr ''Dear Sam''\<rparr>
           = \<lparr>email_to = JStr ''sam@example.com'', email_subject = JStr ''Hello {{contactName}}'',
              email_body = JStr ''Dear Sam''\<rparr>"
    by (simp add: rule_email_def js_get_def js_or_def ctx_sam_def)
  from rule_failures_are_isolated[of env_email_down "''W1''" BOOKING_REMINDER ctx_sam world_two_rules ?m
      _ _ "JStr ''Dear Sam''"]
  have sent: "\<lparr>email_to = js_get ctx_sam ''email'',
             email_subject = js_or (js_get (rule_config ?m) ''subject'') (JStr ''Notification''),
             email_body = JStr ''Dear Sam''\<rparr>
      \<in> set (email_calls (snd (triggerAutomation env_email_down ''W1'' BOOKING_REMINDER ctx_sam world_two_rules)))"
    using ok r1 m1 a1 t1 b1 by blast
  from rule_failures_are_isolated[of env_email_down "''W1''" BOOKING_REMINDER ctx_sam world_two_rules ?r
      "JStr ''{{itemName}} low''" "JStr ''{{itemName}}: only {{quantity}} left''"]
  have "fst (triggerAutomation env_email_down ''W1'' BOOKING_REMINDER ctx_sam world_two_rules) = None
     \<and> alert_row ?r ctx_sam (JStr ''{{itemName}} low'') (JStr ''{{itemName}}: only {{quantity}} left'') world_two_rules
      \<in> set (alerts (snd (triggerAutomation env_email_down ''W1'' BOOKING_REMINDER ctx_sam world_two_rules)))"
    using ok r m a t g c by blast
  then show ?thesis
    unfolding row using ok down sent[unfolded p1] by blast
qed

section \<open>Properties of the scanners\<close>

lemma trigger_all:
  "for_each (\<lambda>x. triggerAutomation e (wid_of x) trig (ctx_of x)) xs w
   = (None, fold (\<lambda>x w. snd (triggerAutomation e (wid_of x) trig (ctx_of x) w)) xs w)"
  by (rule for_each_total) (rule triggerAutomation_None)

lemma trigger_all_dispatch_log:
  "dispatch_log (fold (\<lambda>x w. snd (triggerAutomation e (wid_of x) trig (ctx_of x) w)) xs w)
   = dispatch_log w @ map (\<lambda>x. (wid_of x, trig, ctx_of x)) xs"
  by (induction xs arbitrary: w) (simp_all add: triggerAutomation_dispatch_log)

lemma checkBookingReminders_dispatch_log:
  assumes "\<not> db_fails e FindBookings"
  shows "dispatch_log (snd (checkBookingReminders e w))
         = dispatch_log w @ map (\<lambda>b. (booking_workspaceId b, BOOKING_REMINDER, booking_context e b))
                               (upcomingBookings e w)"
  using assms
  by (simp add: checkBookingReminders_def trigger_all trigger_all_dispatch_log try_catch_def)

lemma upcomingBookings_iff:
  "b \<in> set (upcomingBookings e w) \<longleftrightarrow>
     b \<in> set (bookings w)
     \<and> (booking_status b = Booking_PENDING \<or> booking_status b = Booking_CONFIRMED)
     \<and> addDays e (now w) 1 \<le> booking_startTime b
     \<and> booking_startTime b \<le> addDays e (addDays e (now w) 1) 1"
  by (auto simp: upcomingBookings_def Let_def)

text \<open>
  Claim C4, as the code has it. The reminder scan selects exactly the bookings that are
  pending or confirmed and start between \<^verbatim>\<open>addDays(now, 1)\<close> and
  \<^verbatim>\<open>addDays(addDays(now, 1), 1)\<close>, both ends included, counted from the instant of
  the scan and not from the start of its day; when its query succeeds it dispatches the
  reminder trigger once for each of them. Where the server's time zone has no clock
  change in these two days the bounds are 24 and 48 hours from now. Whenever each of
  the two days is 23 to 25 hours long and the two together are shorter than 50 hours,
  a booking 30 hours ahead is selected and bookings 3 or 50 hours ahead are not.
\<close>

theorem reminder_window_is_one_to_two_days_from_now:
  "(b \<in> set (upcomingBookings e w) \<longleftrightarrow>
      b \<in> set (bookings w)
      \<and> (booking_status b = Booking_PENDING \<or> booking_status b = Booking_CONFIRMED)
      \<and> addDays e (now w) 1 \<le> booking_startTime b
      \<and> booking_startTime b \<le> addDays e (addDays e (now w) 1) 1)
   \<and> (\<not> db_fails e FindBookings \<longrightarrow>
        dispatch_log (snd (checkBookingReminders e w))
        = dispatch_log w @ map (\<lambda>b. (booking_workspaceId b, BOOKING_REMINDER, booking_context e b))
                              (upcomingBookings e w))
   \<and> (addDays e (now w) 1 = now w + 86400000
        \<and> addDays e (now w + 86400000) 1 = now w + 2 * 86400000 \<longrightarrow>
        (b \<in> set (upcomingBookings e w) \<longleftrightarrow>
           b \<in> set (bookings w)
           \<and> (booking_status b = Booking_PENDING \<or> booking_status b = Booking_CONFIRMED)
           \<and> now w + 86400000 \<le> booking_startTime b
           \<and> booking_startTime b \<le> now w + 172800000))
   \<and> (now w + 23 * 3600000 \<le> addDays e (now w) 1
        \<and> addDays e (now w) 1 \<le> now w + 25 * 3600000
        \<and> addDays e (now w) 1 + 23 * 3600000 \<le> addDays e (addDays e (now w) 1) 1
        \<and> addDays e (addDays e (now w) 1) 1 < now w + 50 * 3600000
        \<and> b \<in> set (bookings w)
        \<and> (booking_status b = Booking_PENDING \<or> booking_status b = Booking_CONFIRMED) \<longrightarrow>
        (booking_startTime b = now w + 30 * 3600000 \<longrightarrow> b \<in> set (upcomingBookings e w))
        \<and> (booking_startTime b = now w + 3 * 3600000 \<or> booking_startTime b = now w + 50 * 3600000
             \<longrightarrow> b \<notin> set (upcomingBookings e w)))"
proof (intro conjI)
  show "b \<in> set (upcomingBookings e w) \<longleftrightarrow>
      b \<in> set (bookings w)
      \<and> (booking_status b = Booking_PENDING \<or> booking_status b = Booking_CONFIRMED)
      \<and> addDays e (now w) 1 \<le> booking_startTime b
      \<and> booking_startTime b \<le> addDays e (addDays e (now w) 1) 1"
    by (rule upcomingBookings_iff)
  show "\<not> db_fails e FindBookings \<longrightarrow>
        dispatch_log (snd (checkBookingReminders e w))
        = dispatch_log w @ map (\<lambda>b. (booking_workspaceId b, BOOKING_REMINDER, booking_context e b))
                              (upcomingBookings e w)"
    using checkBookingReminders_dispatch_log[of e w] by blast
  show "addDays e (now w) 1 = now w + 86400000
        \<and> addDays e (now w + 86400000) 1 = now w + 2 * 86400000 \<longrightarrow>
        (b \<in> set (upcomingBookings e w) \<longleftrightarrow>
           b \<in> set (bookings w)
           \<and> (booking_status b = Booking_PENDING \<or> booking_status b = Booking_CONFIRMED)
           \<and> now w + 86400000 \<le> booking_startTime b
           \<and> booking_startTime b \<le> now w + 172800000)"
    by (simp add: upcomingBookings_iff)
  show "now w + 23 * 3600000 \<le> addDays e (now w) 1
        \<and> addDays e (now w) 1 \<le> now w + 25 * 3600000
        \<and> addDays e (now w) 1 + 23 * 3600000 \<le> addDays e (addDays e (now w) 1) 1
        \<and> addDays e (addDays e (now w) 1) 1 < now w + 50 * 3600000
        \<and> b \<in> set (bookings w)
        \<and> (booking_status b = Booking_PENDING \<or> booking_status b = Booking_CONFIRMED) \<longrightarrow>
        (booking_startTime b = now w + 30 * 3600000 \<longrightarrow> b \<in> set (upcomingBookings e w))
        \<and> (booking_startTime b = now w + 3 * 3600000 \<or> booking_startTime b = now w + 50 * 3600000
             \<longrightarrow> b \<notin> set (upcomingBookings e w))"
    unfolding upcomingBookings_iff by linarith
qed

text \<open>
  The theorem of C4 at a confirmed booking 30 hours ahead, on a server whose days are
  24 hours long.
\<close>

theorem reminder_window_is_one_to_two_days_from_now_witness:
  "\<not> db_fails env_ok FindBookings
   \<and> addDays env_ok (now world0) 1 = now world0 + 86400000
   \<and> addDays env_ok (now world0 + 86400000) 1 = now world0 + 2 * 86400000
   \<and> booking_at (now world0 + 30 * 3600000) \<in> set (bookings (world0\<lparr>bookings := [booking_at (now world0 + 30 * 3600000)]\<rparr>))
   \<and> booking_status (booking_at (now world0 + 30 * 3600000)) = Booking_CONFIRMED
   \<and> booking_at (now world0 + 30 * 3600000)
      \<in> set (upcomingBookings env_ok (world0\<lparr>bookings := [booking_at (now world0 + 30 * 3600000)]\<rparr>))
   \<and> dispatch_log (snd (checkBookingReminders env_ok (world0\<lparr>bookings := [booking_at (now world0 + 30 * 3600000)]\<rparr>)))
      = [(''W1'', BOOKING_REMINDER, booking_context env_ok (booking_at (now world0 + 30 * 3600000)))]"
proof -
  let ?b = "booking_at (now world0 + 30 * 3600000)"
  let ?w = "world0\<lparr>bookings := [?b]\<rparr>"
  have ok: "\<not> db_fails env_ok FindBookings" by (simp add: env_ok_def)
  have d1: "addDays env_ok (now world0) 1 = now world0 + 86400000"
    and d2: "addDays env_ok (now world0 + 86400000) 1 = now world0 + 2 * 86400000"
    by (simp_all add: env_ok_def)
  have nw: "now ?w = now world0" by simp
  have inb: "?b \<in> set (bookings ?w)" by simp
  have st: "booking_status ?b = Booking_CONFIRMED" by (simp add: booking_at_def)
  have tm: "booking_startTime ?b = now ?w + 30 * 3600000" by (simp add: booking_at_def)
  note inst = reminder_window_is_one_to_two_days_from_now[of ?b env_ok ?w]
  have "?b \<in> set (upcomingBookings env_ok ?w) \<longleftrightarrow>
           ?b \<in> set (bookings ?w)
           \<and> (booking_status ?b = Booking_PENDING \<or> booking_status ?b = Booking_CONFIRMED)
           \<and> now ?w + 86400000 \<le> booking_startTime ?b
           \<and> booking_startTime ?b \<le> now ?w + 172800000"
    using inst d1 d2 unfolding nw by blast
  then have up: "?b \<in> set (upcomingBookings env_ok ?w)"
    using inb st tm by simp
  have "upcomingBookings env_ok ?w = [?b]"
    using up by (simp add: upcomingBookings_def Let_def split: if_splits)
  moreover have "dispatch_log ?w = []" by (simp add: world0_def)
  moreover have "booking_workspaceId ?b = ''W1''" by (simp add: booking_at_def)
  ultimately have "dispatch_log (snd (checkBookingReminders env_ok ?w))
      = [(''W1'', BOOKING_REMINDER, booking_context env_ok ?b)]"
    using inst ok by simp
  then show ?thesis using ok d1 d2 inb st up by blast
qed

text \<open>
  Claim C4 as it is written fails: on a server in UTC, at noon, a confirmed booking at
  one o'clock next morning lies in the window that begins at the start of tomorrow, and
  the scan does not select it, since it starts 13 hours ahead.
\<close>

theorem reminder_window_counterexample:
  "booking_at 1767402000000 \<in> set (bookings world_noon)
   \<and> booking_status (booking_at 1767402000000) = Booking_CONFIRMED
   \<and> claimed_reminder_window (now world_noon) (booking_startTime (booking_at 1767402000000))
   \<and> booking_at 1767402000000 \<notin> set (upcomingBookings env_ok world_noon)"
  by (simp add: world_noon_def world0_def booking_at_def claimed_reminder_window_def startOfDay_def
      upcomingBookings_def env_ok_def)

lemma mark_overdue_empty: "mark_overdue {} r = r"
  by (simp add: mark_overdue_def)

lemma mark_overdue_twice: "mark_overdue A (mark_overdue B r) = mark_overdue (A \<union> B) r"
  by (simp add: mark_overdue_def)

lemma update_loop_snd:
  "snd (for_each (\<lambda>s. submission_update e (submission_id s) OVERDUE) os w)
   = w\<lparr>formSubmissions :=
        map (mark_overdue (submission_id `
               set (takeWhile (\<lambda>s. \<not> db_fails e (UpdateSubmission (submission_id s))) os)))
          (formSubmissions w)\<rparr>"
proof (induction os arbitrary: w)
  case Nil
  show ?case by (simp add: mark_overdue_empty[abs_def])
next
  case (Cons s os)
  show ?case
  proof (cases "db_fails e (UpdateSubmission (submission_id s))")
    case True
    then show ?thesis
      by (simp add: submission_update_def mark_overdue_empty[abs_def])
  next
    case False
    let ?w1 = "w\<lparr>formSubmissions := map (mark_overdue {submission_id s}) (formSubmissions w)\<rparr>"
    have step: "submission_update e (submission_id s) OVERDUE w = (None, ?w1)"
      using False by (simp add: submission_update_def mark_overdue_def[abs_def])
    have "mark_overdue A \<circ> mark_overdue {submission_id s} = mark_overdue (insert (submission_id s) A)" for A
      by (rule ext) (simp add: mark_overdue_twice)
    then show ?thesis
      using False by (simp add: step Cons)
  qed
qed

lemma update_loop_fst:
  "fst (for_each (\<lambda>s. submission_update e (submission_id s) OVERDUE) os w)
   = (if list_all (\<lambda>s. \<not> db_fails e (UpdateSubmission (submission_id s))) os then None
      else Some DbError)"
  by (induction os arbitrary: w) (simp_all add: submission_update_def)

lemma checkOverdueForms_eq:
  "checkOverdueForms e w
   = (None, w\<lparr>formSubmissions := map (mark_overdue (submission_id ` set (updated e w))) (formSubmissions w),
              error_log := error_log w @
                (if db_fails e FindOverdueForms
                    \<or> \<not> list_all (\<lambda>s. \<not> db_fails e (UpdateSubmission (submission_id s))) (overdueForms w)
                 then [''Error checking overdue forms:''] else [])\<rparr>)"
proof (cases "db_fails e FindOverdueForms")
  case True
  then show ?thesis
    by (simp add: checkOverdueForms_def try_catch_def console_error_def updated_def
        mark_overdue_empty[abs_def])
next
  case False
  let ?loop = "for_each (\<lambda>s. submission_update e (submission_id s) OVERDUE) (overdueForms w) w"
  have co: "checkOverdueForms e w = try_catch ''Error checking overdue forms:'' (fst ?loop, snd ?loop)"
    using False by (simp add: checkOverdueForms_def)
  show ?thesis
    unfolding co update_loop_snd update_loop_fst
    using False by (simp add: try_catch_def console_error_def updated_def)
qed

lemma updated_subset: "set (updated e w) \<subseteq> set (overdueForms w)"
  by (auto simp: updated_def dest: set_takeWhileD)

lemma updated_ok: "overdue_db_ok e w \<Longrightarrow> updated e w = overdueForms w"
  by (auto simp: updated_def overdue_db_ok_def overdueForms_def list_all_iff intro: takeWhile_eq_all_conv[THEN iffD2])

lemma overdueForms_set: "s \<in> set (overdueForms w) \<longleftrightarrow> s \<in> set (formSubmissions w) \<and> is_overdue w s"
  by (auto simp: overdueForms_def is_overdue_def)

lemma id_in_done:
  assumes "distinct (map submission_id (formSubmissions w))" and "set done \<subseteq> set (overdueForms w)"
    and "r \<in> set (formSubmissions w)"
  shows "submission_id r \<in> submission_id ` set done \<longleftrightarrow> r \<in> set done"
proof
  assume "submission_id r \<in> submission_id ` set done"
  then obtain s where s: "s \<in> set done" "submission_id s = submission_id r" by auto
  then have "s \<in> set (formSubmissions w)" using assms(2) overdueForms_set by blast
  moreover have "inj_on submission_id (set (formSubmissions w))"
    using assms(1) by (simp add: distinct_map)
  ultimately have "s = r"
    using assms(3) s(2) by (auto dest: inj_onD)
  then show "r \<in> set done" using s(1) by simp
qed auto

lemma mark_updated:
  assumes "distinct (map submission_id (formSubmissions w))" and "r \<in> set (formSubmissions w)"
  shows "mark_overdue (submission_id ` set (updated e w)) r
         = (if r \<in> set (updated e w) then r\<lparr>submission_status := OVERDUE\<rparr> else r)"
  using id_in_done[OF assms(1) updated_subset assms(2), of e] by (simp add: mark_overdue_def)

lemma overdue_exact:
  assumes "distinct (map submission_id (formSubmissions w))" and "overdue_db_ok e w"
  shows "formSubmissions (snd (checkOverdueForms e w))
         = map (\<lambda>s. if is_overdue w s then s\<lparr>submission_status := OVERDUE\<rparr> else s) (formSubmissions w)"
proof -
  have "mark_overdue (submission_id ` set (updated e w)) r
        = (if is_overdue w r then r\<lparr>submission_status := OVERDUE\<rparr> else r)"
    if "r \<in> set (formSubmissions w)" for r
    using mark_updated[OF assms(1) that, of e] updated_ok[OF assms(2)] that
    by (simp add: overdueForms_set)
  then show ?thesis
    by (simp add: checkOverdueForms_eq)
qed

lemma overdue_one_way:
  assumes "distinct (map submission_id (formSubmissions w))" and "i < length (formSubmissions w)"
  shows "formSubmissions (snd (checkOverdueForms e w)) ! i = formSubmissions w ! i
         \<or> (is_overdue w (formSubmissions w ! i)
            \<and> formSubmissions (snd (checkOverdueForms e w)) ! i
              = (formSubmissions w ! i)\<lparr>submission_status := OVERDUE\<rparr>)"
proof -
  let ?r = "formSubmissions w ! i"
  have r: "?r \<in> set (formSubmissions w)" using assms(2) by simp
  have "?r \<in> set (updated e w) \<Longrightarrow> is_overdue w ?r"
    using updated_subset[of e w] overdueForms_set by blast
  then show ?thesis
    using mark_updated[OF assms(1) r, of e] assms(2)
    by (auto simp: checkOverdueForms_eq)
qed

lemma overdue_length: "length (formSubmissions (snd (checkOverdueForms e w))) = length (formSubmissions w)"
  by (simp add: checkOverdueForms_eq)

lemma overdue_no_dispatch:
  "dispatch_log (snd (checkOverdueForms e w)) = dispatch_log w
   \<and> exec_log (snd (checkOverdueForms e w)) = exec_log w
   \<and> alerts (snd (checkOverdueForms e w)) = alerts w
   \<and> email_calls (snd (checkOverdueForms e w)) = email_calls w
   \<and> sms_calls (snd (checkOverdueForms e w)) = sms_calls w
   \<and> emitted (snd (checkOverdueForms e w)) = emitted w"
  by (simp add: checkOverdueForms_eq)

lemma overdue_twice:
  assumes "distinct (map submission_id (formSubmissions w))" and "overdue_db_ok e w"
  shows "checkOverdueForms e (snd (checkOverdueForms e w)) = checkOverdueForms e w"
proof -
  let ?F = "map (\<lambda>s. if is_overdue w s then s\<lparr>submission_status := OVERDUE\<rparr> else s) (formSubmissions w)"
  let ?w' = "snd (checkOverdueForms e w)"
  have ok: "\<not> db_fails e FindOverdueForms" using assms(2) by (simp add: overdue_db_ok_def)
  have all: "list_all (\<lambda>s. \<not> db_fails e (UpdateSubmission (submission_id s))) (overdueForms w)"
    using assms(2) by (auto simp: overdue_db_ok_def overdueForms_def list_all_iff)
  have w': "?w' = w\<lparr>formSubmissions := ?F\<rparr>"
    using overdue_exact[OF assms] ok all by (simp add: checkOverdueForms_eq)
  have "\<not> is_overdue (w\<lparr>formSubmissions := ?F\<rparr>) s" if "s \<in> set ?F" for s
    using that by (auto simp: is_overdue_def split: option.splits)
  then have none: "overdueForms (w\<lparr>formSubmissions := ?F\<rparr>) = []"
    by (auto simp: overdueForms_def is_overdue_def filter_empty_conv)
  have "checkOverdueForms e (w\<lparr>formSubmissions := ?F\<rparr>) = (None, w\<lparr>formSubmissions := ?F\<rparr>)"
    using ok none by (simp add: checkOverdueForms_def try_catch_def)
  moreover have "checkOverdueForms e w = (None, ?w')"
    using checkOverdueForms_eq[of e w] by simp
  ultimately show ?thesis by (simp add: w')
qed

lemma try_catch_snd:
  "snd (try_catch msg r) = (if fst r = None then snd r else console_error msg (snd r))"
  by (cases r) (auto simp: try_catch_def split: option.splits)

lemma console_error_same_tables: "same_tables w (console_error msg w)"
  by (simp add: same_tables_def console_error_def)

lemma try_catch_same_tables: "same_tables w (snd r) \<Longrightarrow> same_tables w (snd (try_catch msg r))"
  using same_tables_trans[OF _ console_error_same_tables] by (simp add: try_catch_snd)

lemma for_each_same_tables:
  assumes "\<And>x w. same_tables w (snd (f x w))"
  shows "same_tables w (snd (for_each f xs w))"
proof (induction xs arbitrary: w)
  case Nil
  show ?case by (simp add: same_tables_refl)
next
  case (Cons x xs)
  show ?case
  proof (cases "f x w")
    case (Pair r w1)
    then have s1: "same_tables w w1" using assms[of w x] by simp
    show ?thesis
    proof (cases r)
      case None
      then show ?thesis using Pair same_tables_trans[OF s1 Cons[of w1]] by simp
    next
      case (Some x)
      then show ?thesis using Pair s1 by simp
    qed
  qed
qed

lemma checkBookingReminders_same_tables: "same_tables w (snd (checkBookingReminders e w))"
  unfolding checkBookingReminders_def
  by (intro try_catch_same_tables)
     (simp add: same_tables_refl for_each_same_tables triggerAutomation_same_tables)

lemma checkPendingForms_same_tables: "same_tables w (snd (checkPendingForms e w))"
  unfolding checkPendingForms_def
  by (intro try_catch_same_tables)
     (auto simp: same_tables_refl triggerAutomation_same_tables
           intro!: for_each_same_tables split: option.splits)

lemma check_item_same_tables: "same_tables w (snd (check_item e i w))"
  by (simp add: check_item_def same_tables_refl triggerAutomation_same_tables split: option.splits)

lemma checkInventoryLevels_same_tables: "same_tables w (snd (checkInventoryLevels e w))"
  unfolding checkInventoryLevels_def
  by (intro try_catch_same_tables)
     (simp add: same_tables_refl for_each_same_tables check_item_same_tables)

lemma scanners_None:
  "fst (checkBookingReminders e w) = None"
  "fst (checkPendingForms e w) = None"
  "fst (checkInventoryLevels e w) = None"
  "fst (checkOverdueForms e w) = None"
  by (simp_all add: checkBookingReminders_def checkPendingForms_def checkInventoryLevels_def
      checkOverdueForms_def try_catch_None)

lemma every_15_minutes_same_tables: "same_tables w (snd (every_15_minutes e w))"
proof -
  obtain r1 w1 where c1: "checkBookingReminders e w = (r1, w1)"
    by (cases "checkBookingReminders e w")
  obtain r2 w2 where c2: "checkPendingForms e w1 = (r2, w2)"
    by (cases "checkPendingForms e w1")
  have "r1 = None"
    using c1 scanners_None(1)[of e w] by simp
  moreover have "r2 = None"
    using c2 scanners_None(2)[of e w1] by simp
  ultimately have eq: "every_15_minutes e w = checkInventoryLevels e w2"
    using c1 c2 by (simp add: every_15_minutes_def)
  have "same_tables w w1"
    using checkBookingReminders_same_tables[of w e] c1 by simp
  moreover have "same_tables w1 w2"
    using checkPendingForms_same_tables[of w1 e] c2 by simp
  ultimately show ?thesis
    unfolding eq
    using same_tables_trans[OF same_tables_trans checkInventoryLevels_same_tables] by blast
qed

text \<open>
  Claim C8. With the primary key unique and the database answering, one run of the
  overdue scan sets to OVERDUE exactly the submissions that are PENDING with a due date
  before now, and a second run changes nothing at all. In any case a submission that is
  not PENDING keeps its row, so a submission that is OVERDUE is never written again.
  The scan dispatches nothing: no dispatch, no executed rule, no alert, no email and no
  SMS. No other operation of the engine writes a submission: not a dispatch, and not
  the three scans of the 15-minute job.
\<close>

theorem overdue_scan_is_the_only_status_writer:
  "(distinct (map submission_id (formSubmissions w)) \<and> overdue_db_ok e w \<longrightarrow>
      formSubmissions (snd (checkOverdueForms e w))
      = map (\<lambda>s. if submission_status s = PENDING
                      \<and> (\<exists>d. submission_dueDate s = Some d \<and> d < now w)
                   then s\<lparr>submission_status := OVERDUE\<rparr> else s) (formSubmissions w)
      \<and> checkOverdueForms e (snd (checkOverdueForms e w)) = checkOverdueForms e w)
   \<and> (distinct (map submission_id (formSubmissions w)) \<longrightarrow>
        length (formSubmissions (snd (checkOverdueForms e w))) = length (formSubmissions w)
        \<and> (\<forall>i<length (formSubmissions w).
              submission_status (formSubmissions w ! i) \<noteq> PENDING \<longrightarrow>
              formSubmissions (snd (checkOverdueForms e w)) ! i = formSubmissions w ! i))
   \<and> dispatch_log (snd (checkOverdueForms e w)) = dispatch_log w
   \<and> exec_log (snd (checkOverdueForms e w)) = exec_log w
   \<and> alerts (snd (checkOverdueForms e w)) = alerts w
   \<and> email_calls (snd (checkOverdueForms e w)) = email_calls w
   \<and> sms_calls (snd (checkOverdueForms e w)) = sms_calls w
   \<and> formSubmissions (snd (triggerAutomation e workspaceId trigger ctx w)) = formSubmissions w
   \<and> formSubmissions (snd (every_15_minutes e w)) = formSubmissions w"
proof -
  have cond: "is_overdue w s \<longleftrightarrow> submission_status s = PENDING
                      \<and> (\<exists>d. submission_dueDate s = Some d \<and> d < now w)" for s
    by (auto simp: is_overdue_def split: option.splits)
  have one: "distinct (map submission_id (formSubmissions w)) \<and> overdue_db_ok e w \<longrightarrow>
      formSubmissions (snd (checkOverdueForms e w))
      = map (\<lambda>s. if submission_status s = PENDING
                      \<and> (\<exists>d. submission_dueDate s = Some d \<and> d < now w)
                   then s\<lparr>submission_status := OVERDUE\<rparr> else s) (formSubmissions w)
      \<and> checkOverdueForms e (snd (checkOverdueForms e w)) = checkOverdueForms e w"
    using overdue_exact[of w e] overdue_twice[of w e] by (simp add: cond)
  have two: "distinct (map submission_id (formSubmissions w)) \<longrightarrow>
        length (formSubmissions (snd (checkOverdueForms e w))) = length (formSubmissions w)
        \<and> (\<forall>i<length (formSubmissions w).
              submission_status (formSubmissions w ! i) \<noteq> PENDING \<longrightarrow>
              formSubmissions (snd (checkOverdueForms e w)) ! i = formSubmissions w ! i)"
    using overdue_one_way[of w _ e] overdue_length[of e w] by (auto simp: is_overdue_def)
  have three: "formSubmissions (snd (triggerAutomation e workspaceId trigger ctx w)) = formSubmissions w"
    using triggerAutomation_same_tables[of w e workspaceId trigger ctx] by (simp add: same_tables_def)
  have four: "formSubmissions (snd (every_15_minutes e w)) = formSubmissions w"
    using every_15_minutes_same_tables[of w e] by (simp add: same_tables_def)
  show ?thesis
    using one two three four overdue_no_dispatch[of e w] by blast
qed

text \<open>
  The theorem of C8 at four submissions: only the one that is pending and due yesterday
  becomes overdue, and the second run is the first.
\<close>

theorem overdue_scan_is_the_only_status_writer_witness:
  "distinct (map submission_id (formSubmissions world_forms)) \<and> overdue_db_ok env_ok world_forms
   \<and> formSubmissions (snd (checkOverdueForms env_ok world_forms))
     = [submission_of ''s1'' OVERDUE (Some 1767225600000),
        submission_of ''s2'' PENDING (Some 1767398400000),
        submission_of ''s3'' COMPLETED (Some 1767225600000),
        submission_of ''s4'' PENDING None]
   \<and> checkOverdueForms env_ok (snd (checkOverdueForms env_ok world_forms))
     = checkOverdueForms env_ok world_forms"
proof -
  have fs: "formSubmissions world_forms
     = [submission_of ''s1'' PENDING (Some 1767225600000),
        submission_of ''s2'' PENDING (Some 1767398400000),
        submission_of ''s3'' COMPLETED (Some 1767225600000),
        submission_of ''s4'' PENDING None]"
    and nw: "now world_forms = 1767312000000"
    by (simp_all add: world_forms_def world0_def)
  have d: "distinct (map submission_id (formSubmissions world_forms))"
    unfolding fs by (simp add: submission_of_def)
  have ok: "overdue_db_ok env_ok world_forms"
    by (simp add: overdue_db_ok_def env_ok_def list_all_iff)
  note inst = overdue_scan_is_the_only_status_writer[of world_forms env_ok, THEN conjunct1, rule_format, OF conjI[OF d ok]]
  have "map (\<lambda>s. if submission_status s = PENDING
                      \<and> (\<exists>d. submission_dueDate s = Some d \<and> d < now world_forms)
                   then s\<lparr>submission_status := OVERDUE\<rparr> else s) (formSubmissions world_forms)
      = [submission_of ''s1'' OVERDUE (Some 1767225600000),
        submission_of ''s2'' PENDING (Some 1767398400000),
        submission_of ''s3'' COMPLETED (Some 1767225600000),
        submission_of ''s4'' PENDING None]"
    unfolding fs nw by (simp add: submission_of_def)
  then show ?thesis
    using d ok inst by simp
qed

lemma recentAlert_None_iff:
  "recentAlert e w i = None \<longleftrightarrow> \<not> (\<exists>a\<in>set (alerts w). recent_alert_where e w i a)"
  by (auto simp: recentAlert_def find_None_iff)

lemma recent_alert_where_iff:
  "recent_alert_where e w i a \<longleftrightarrow>
     alert_workspaceId a = item_workspaceId i \<and> alert_type a = JStr ''LOW_INVENTORY''
     \<and> addDays e (now w) (- 1) \<le> alert_createdAt a
     \<and> (\<exists>m. alert_message a = JStr m \<and> sublist (item_name i) m)"
  by (auto simp: recent_alert_where_def split: jsval.splits)

lemma recentAlert_mono:
  assumes "now w' = now w" and "prefix (alerts w) (alerts w')" and "recentAlert e w' i = None"
  shows "recentAlert e w i = None"
proof -
  have "recent_alert_where e w' i = recent_alert_where e w i"
    using assms(1) by (intro ext) (simp add: recent_alert_where_def)
  moreover have "set (alerts w) \<subseteq> set (alerts w')"
    using assms(2) by (rule set_mono_prefix)
  ultimately show ?thesis
    using assms(3) by (auto simp: recentAlert_None_iff)
qed

lemma low_inventory_entry_mono:
  assumes "now w' = now w" and "prefix (alerts w) (alerts w')" and "low_inventory_entry e w' items x"
  shows "low_inventory_entry e w (i # items) x"
  using assms recentAlert_mono[OF assms(1,2)] by (auto simp: low_inventory_entry_def)

lemma scan_inv_refl: "scan_inv e items w w"
  by (simp add: scan_inv_def)

lemma scan_inv_skip:
  assumes "scan_inv e items w w'"
  shows "scan_inv e (i # items) w w'"
proof -
  from assms obtain entries where e: "dispatch_log w' = dispatch_log w @ entries"
    "\<forall>x\<in>set entries. low_inventory_entry e w items x"
    unfolding scan_inv_def by (elim conjE exE)
  have "\<forall>x\<in>set entries. low_inventory_entry e w (i # items) x"
    using e(2) by (auto simp: low_inventory_entry_def)
  then show ?thesis
    using assms e(1) unfolding scan_inv_def by (intro conjI exI[of _ entries]) simp_all
qed

lemma scan_inv_dispatch:
  assumes "recentAlert e w i = None"
    and "scan_inv e items (snd (triggerAutomation e (item_workspaceId i) INVENTORY_LOW (item_context i) w)) w'"
  shows "scan_inv e (i # items) w w'"
proof -
  let ?w1 = "snd (triggerAutomation e (item_workspaceId i) INVENTORY_LOW (item_context i) w)"
  have n1: "now ?w1 = now w"
    using triggerAutomation_same_tables[of w e] by (simp add: same_tables_def)
  have p1: "prefix (alerts w) (alerts ?w1)" by (rule triggerAutomation_alerts_prefix)
  have d1: "dispatch_log ?w1 = dispatch_log w @ [(item_workspaceId i, INVENTORY_LOW, item_context i)]"
    by (rule triggerAutomation_dispatch_log)
  from assms(2) obtain entries where e: "dispatch_log w' = dispatch_log ?w1 @ entries"
    "\<forall>x\<in>set entries. low_inventory_entry e ?w1 items x"
    and n2: "now w' = now ?w1" and p2: "prefix (alerts ?w1) (alerts w')"
    unfolding scan_inv_def by (elim conjE exE)
  have first: "low_inventory_entry e w (i # items) (item_workspaceId i, INVENTORY_LOW, item_context i)"
    using assms(1) by (simp add: low_inventory_entry_def)
  have rest: "\<forall>x\<in>set entries. low_inventory_entry e w (i # items) x"
    using e(2) low_inventory_entry_mono[OF n1 p1] by blast
  have "dispatch_log w' = dispatch_log w @ ((item_workspaceId i, INVENTORY_LOW, item_context i) # entries)"
    using e(1) d1 by simp
  moreover have "\<forall>x\<in>set ((item_workspaceId i, INVENTORY_LOW, item_context i) # entries).
                    low_inventory_entry e w (i # items) x"
    using first rest by simp
  moreover have "now w' = now w" using n1 n2 by simp
  moreover have "prefix (alerts w) (alerts w')" using p1 p2 by (rule prefix_order.trans)
  ultimately show ?thesis
    unfolding scan_inv_def by blast
qed

lemma triggerAutomation_pair:
  "triggerAutomation e wid trig c w = (None, snd (triggerAutomation e wid trig c w))"
  using triggerAutomation_None[of e wid trig c w] by (cases "triggerAutomation e wid trig c w") simp

lemma scan_loop_inv: "scan_inv e items w (snd (for_each (check_item e) items w))"
proof (induction items arbitrary: w)
  case Nil
  show ?case by (simp add: scan_inv_refl)
next
  case (Cons i items)
  let ?w1 = "snd (triggerAutomation e (item_workspaceId i) INVENTORY_LOW (item_context i) w)"
  show ?case
  proof (cases "db_fails e (FindRecentAlert i)")
    case True
    then show ?thesis by (simp add: check_item_def scan_inv_refl)
  next
    case False
    show ?thesis
    proof (cases "recentAlert e w i")
      case (Some a)
      then have "check_item e i w = (None, w)" using False by (simp add: check_item_def)
      then show ?thesis using scan_inv_skip[OF Cons[of w]] by simp
    next
      case None
      then have "check_item e i w = (None, ?w1)"
        using False triggerAutomation_pair[of e "item_workspaceId i" INVENTORY_LOW "item_context i" w]
        by (simp add: check_item_def)
      then show ?thesis
        using scan_inv_dispatch[OF None Cons[of ?w1]] by simp
    qed
  qed
qed

lemma lowStockItems_set:
  "i \<in> set (lowStockItems w) \<longleftrightarrow>
     i \<in> set (inventoryItems w) \<and> item_isActive i \<and> item_quantity i \<le> item_lowStockThreshold i"
  by (auto simp: lowStockItems_def)

lemma checkInventoryLevels_logs:
  "dispatch_log (snd (checkInventoryLevels e w))
     = dispatch_log (snd (if db_fails e FindLowStockItems then (Some DbError, w)
                          else for_each (check_item e) (lowStockItems w) w))"
  "alerts (snd (checkInventoryLevels e w))
     = alerts (snd (if db_fails e FindLowStockItems then (Some DbError, w)
                          else for_each (check_item e) (lowStockItems w) w))"
  by (simp_all add: checkInventoryLevels_def try_catch_snd console_error_def)

lemma inventory_dispatch_only_if:
  assumes "x \<in> set (drop (length (dispatch_log w)) (dispatch_log (snd (checkInventoryLevels e w))))"
  shows "\<exists>i\<in>set (inventoryItems w). item_isActive i \<and> item_quantity i \<le> item_lowStockThreshold i
           \<and> x = (item_workspaceId i, INVENTORY_LOW, item_context i)
           \<and> \<not> (\<exists>a\<in>set (alerts w). recent_alert_where e w i a)"
proof (cases "db_fails e FindLowStockItems")
  case True
  then show ?thesis using assms by (simp add: checkInventoryLevels_logs)
next
  case False
  let ?w' = "snd (for_each (check_item e) (lowStockItems w) w)"
  from scan_loop_inv[where items="lowStockItems w" and w=w and e=e] obtain entries where
    e: "dispatch_log ?w' = dispatch_log w @ entries"
       "\<forall>x\<in>set entries. low_inventory_entry e w (lowStockItems w) x"
    unfolding scan_inv_def by (elim conjE exE)
  have "x \<in> set entries"
    using assms False e(1) by (simp add: checkInventoryLevels_logs)
  then have "low_inventory_entry e w (lowStockItems w) x" using e(2) by blast
  then show ?thesis
    by (auto simp: low_inventory_entry_def lowStockItems_set recentAlert_None_iff)
qed

lemma scan_all_skipped:
  assumes "\<forall>i\<in>set items. recentAlert e w i \<noteq> None"
  shows "snd (for_each (check_item e) items w) = w"
  using assms
proof (induction items)
  case Nil
  show ?case by simp
next
  case (Cons i items)
  then obtain a where "recentAlert e w i = Some a" by auto
  then have "check_item e i w = (Some DbError, w) \<or> check_item e i w = (None, w)"
    by (simp add: check_item_def)
  then show ?case using Cons by auto
qed

lemma inventory_all_recent:
  assumes "\<forall>i\<in>set (inventoryItems w). item_isActive i \<and> item_quantity i \<le> item_lowStockThreshold i
             \<longrightarrow> (\<exists>a\<in>set (alerts w). recent_alert_where e w i a)"
  shows "alerts (snd (checkInventoryLevels e w)) = alerts w
         \<and> dispatch_log (snd (checkInventoryLevels e w)) = dispatch_log w"
proof -
  have "\<forall>i\<in>set (lowStockItems w). recentAlert e w i \<noteq> None"
    using assms by (simp add: lowStockItems_set recentAlert_None_iff)
  then have "snd (for_each (check_item e) (lowStockItems w) w) = w"
    by (rule scan_all_skipped)
  then show ?thesis
    by (simp add: checkInventoryLevels_logs)
qed

lemma dispatch_single_alert_rule:
  assumes "dispatched e wid trig w = [r]" and "rule_action r = CREATE_ALERT"
    and "replaceVariables (js_get (rule_config r) ''title'') c = Inr title"
    and "replaceVariables (js_get (rule_config r) ''message'') c = Inr message"
    and "\<not> db_fails e (CreateAlert (alert_row r c title message w))"
  shows "alerts (snd (triggerAutomation e wid trig c w)) = alerts w @ [alert_row r c title message w]"
proof -
  let ?w0 = "w\<lparr>dispatch_log := dispatch_log w @ [(wid, trig, c)]\<rparr>"
  have row: "alert_row r c title message ?w0 = alert_row r c title message w"
    by (simp add: alert_row_def)
  have "alerts (snd (executeAutomation e r c ?w0)) = alerts ?w0 @ [alert_row r c title message ?w0]"
    using assms(2-5) by (intro executeAutomation_creates_alert) (simp_all add: row)
  then show ?thesis
    by (simp add: triggerAutomation_effects(1) assms(1) row)
qed

lemma scan_loop_fold:
  assumes "\<forall>i\<in>set items. \<not> db_fails e (FindRecentAlert i)"
  shows "for_each (check_item e) items w = (None, fold (scan_step e) items w)"
  using assms
proof (induction items arbitrary: w)
  case Nil
  show ?case by simp
next
  case (Cons i items)
  then have ok: "\<not> db_fails e (FindRecentAlert i)" by simp
  have "check_item e i w = (None, scan_step e i w)"
  proof (cases "recentAlert e w i")
    case None
    then show ?thesis
      using ok triggerAutomation_pair[of e "item_workspaceId i" INVENTORY_LOW "item_context i" w]
        recentAlert_None_iff[of e w i]
      by (simp add: check_item_def scan_step_def)
  next
    case (Some a)
    then show ?thesis
      using ok recentAlert_None_iff[of e w i] by (simp add: check_item_def scan_step_def)
  qed
  then show ?case using Cons by simp
qed

lemma checkInventoryLevels_fold:
  assumes "\<not> db_fails e FindLowStockItems"
    and "\<forall>i\<in>set (inventoryItems w). \<not> db_fails e (FindRecentAlert i)"
  shows "checkInventoryLevels e w = (None, fold (scan_step e) (lowStockItems w) w)"
proof -
  have "\<forall>i\<in>set (lowStockItems w). \<not> db_fails e (FindRecentAlert i)"
    using assms(2) by (simp add: lowStockItems_set)
  then have "for_each (check_item e) (lowStockItems w) w = (None, fold (scan_step e) (lowStockItems w) w)"
    by (rule scan_loop_fold)
  then show ?thesis
    using assms(1) by (simp add: checkInventoryLevels_def try_catch_def)
qed

lemma scan_step_now: "now (scan_step e i w) = now w"
  using triggerAutomation_same_tables[of w e "item_workspaceId i" INVENTORY_LOW "item_context i"]
  by (simp add: scan_step_def same_tables_def)

lemma scan_step_automations: "automations (scan_step e i w) = automations w"
  using triggerAutomation_same_tables[of w e "item_workspaceId i" INVENTORY_LOW "item_context i"]
  by (simp add: scan_step_def same_tables_def)

lemma scan_fold_frame:
  "now (fold (scan_step e) items w) = now w \<and> automations (fold (scan_step e) items w) = automations w"
  by (induction items arbitrary: w) (simp_all add: scan_step_now scan_step_automations)

lemma inventory_item_turn:
  assumes "\<not> db_fails e FindLowStockItems"
    and "\<forall>j\<in>set (inventoryItems w). \<not> db_fails e (FindRecentAlert j)"
    and "lowStockItems w = pre @ i # post"
  shows "snd (checkInventoryLevels e w)
         = fold (scan_step e) post (scan_step e i (fold (scan_step e) pre w))"
  by (simp add: checkInventoryLevels_fold[OF assms(1,2)] assms(3))

lemma item_turn_single_alert_rule:
  assumes "\<not> db_fails e (FindAutomations (item_workspaceId i) INVENTORY_LOW)"
    and "filter (\<lambda>r. rule_workspaceId r = item_workspaceId i \<and> rule_trigger r = INVENTORY_LOW
                     \<and> rule_isActive r) (automations w) = [r]"
    and "rule_action r = CREATE_ALERT"
    and "replaceVariables (js_get (rule_config r) ''title'') (item_context i) = Inr title"
    and "replaceVariables (js_get (rule_config r) ''message'') (item_context i) = Inr message"
    and "\<not> db_fails e (CreateAlert (alert_row r (item_context i) title message w))"
    and "now v = now w" and "automations v = automations w"
  shows "alerts (snd (triggerAutomation e (item_workspaceId i) INVENTORY_LOW (item_context i) v))
         = alerts v @ [alert_row r (item_context i) title message w]"
proof -
  have row: "alert_row r (item_context i) title message v = alert_row r (item_context i) title message w"
    using assms(7) by (rule alert_row_now)
  have d: "dispatched e (item_workspaceId i) INVENTORY_LOW v = [r]"
    using assms(1,2,8) by (simp add: dispatched_filter)
  show ?thesis
    using dispatch_single_alert_rule[OF d assms(3,4,5), unfolded row, OF assms(6)] .
qed

text \<open>
  Claim C9, as the code has it. The scan goes through the active items with
  \<^verbatim>\<open>quantity <= lowStockThreshold\<close> one after the other, each in the state the items
  before it have left. An alert is recent for an item when it is of type LOW_INVENTORY,
  in the item's workspace, created at or after \<^verbatim>\<open>addDays(now, -1)\<close> (24 hours ago
  where the server's zone had no clock change in the last day) and its message
  contains the item's name. Every dispatch of the scan is for such an item for which no
  alert was recent when the scan began; when every such item has a recent alert the
  scan creates no alert and dispatches nothing. When the database answers, the scan is
  the sequence of the items' turns: an item with a recent alert at its turn, an alert
  created earlier in the same run included, is passed over and the state is left as it
  is; an item without one is dispatched once, and if one active rule of the workspace
  listens to the trigger and creates an alert, its turn adds exactly one alert.
\<close>

theorem low_inventory_dedup_in_turn:
  "(\<forall>x\<in>set (drop (length (dispatch_log w)) (dispatch_log (snd (checkInventoryLevels e w)))).
      \<exists>j\<in>set (inventoryItems w). item_isActive j \<and> item_quantity j \<le> item_lowStockThreshold j
           \<and> x = (item_workspaceId j, INVENTORY_LOW, item_context j)
           \<and> \<not> (\<exists>a\<in>set (alerts w). recent_alert_where e w j a))
   \<and> (recent_alert_where e w i a \<longleftrightarrow>
        alert_workspaceId a = item_workspaceId i \<and> alert_type a = JStr ''LOW_INVENTORY''
        \<and> addDays e (now w) (- 1) \<le> alert_createdAt a
        \<and> (\<exists>m. alert_message a = JStr m \<and> sublist (item_name i) m))
   \<and> (addDays e (now w) (- 1) = now w - 86400000 \<longrightarrow>
        (recent_alert_where e w i a \<longleftrightarrow>
           alert_workspaceId a = item_workspaceId i \<and> alert_type a = JStr ''LOW_INVENTORY''
           \<and> now w - 86400000 \<le> alert_createdAt a
           \<and> (\<exists>m. alert_message a = JStr m \<and> sublist (item_name i) m)))
   \<and> ((\<forall>j\<in>set (inventoryItems w). item_isActive j \<and> item_quantity j \<le> item_lowStockThreshold j
             \<longrightarrow> (\<exists>a\<in>set (alerts w). recent_alert_where e w j a))
       \<longrightarrow> alerts (snd (checkInventoryLevels e w)) = alerts w
           \<and> dispatch_log (snd (checkInventoryLevels e w)) = dispatch_log w)
   \<and> scan_step e i w
       = (if \<exists>a\<in>set (alerts w). recent_alert_where e w i a then w
          else snd (triggerAutomation e (item_workspaceId i) INVENTORY_LOW (item_context i) w))
   \<and> (\<not> db_fails e FindLowStockItems
        \<and> (\<forall>j\<in>set (inventoryItems w). \<not> db_fails e (FindRecentAlert j)) \<longrightarrow>
       checkInventoryLevels e w
       = (None, fold (scan_step e)
                  (filter (\<lambda>j. item_isActive j \<and> item_quantity j \<le> item_lowStockThreshold j)
                     (inventoryItems w)) w)
       \<and> (filter (\<lambda>j. item_isActive j \<and> item_quantity j \<le> item_lowStockThreshold j)
             (inventoryItems w) = pre @ i # post \<longrightarrow>
            ((\<exists>a\<in>set (alerts (fold (scan_step e) pre w)).
                  recent_alert_where e (fold (scan_step e) pre w) i a) \<longrightarrow>
               snd (checkInventoryLevels e w) = fold (scan_step e) post (fold (scan_step e) pre w))
            \<and> (\<not> (\<exists>a\<in>set (alerts (fold (scan_step e) pre w)).
                  recent_alert_where e (fold (scan_step e) pre w) i a) \<longrightarrow>
               snd (checkInventoryLevels e w)
               = fold (scan_step e) post
                   (snd (triggerAutomation e (item_workspaceId i) INVENTORY_LOW (item_context i)
                          (fold (scan_step e) pre w)))
               \<and> dispatch_log (snd (triggerAutomation e (item_workspaceId i) INVENTORY_LOW (item_context i)
                                      (fold (scan_step e) pre w)))
                 = dispatch_log (fold (scan_step e) pre w)
                   @ [(item_workspaceId i, INVENTORY_LOW, item_context i)]
               \<and> (\<not> db_fails e (FindAutomations (item_workspaceId i) INVENTORY_LOW)
                   \<and> filter (\<lambda>r. rule_workspaceId r = item_workspaceId i \<and> rule_trigger r = INVENTORY_LOW
                                  \<and> rule_isActive r) (automations w) = [r]
                   \<and> rule_action r = CREATE_ALERT
                   \<and> replaceVariables (js_get (rule_config r) ''title'') (item_context i) = Inr title
                   \<and> replaceVariables (js_get (rule_config r) ''message'') (item_context i) = Inr message
                   \<and> \<not> db_fails e (CreateAlert (alert_row r (item_context i) title message w))
                  \<longrightarrow> alerts (snd (triggerAutomation e (item_workspaceId i) INVENTORY_LOW (item_context i)
                                      (fold (scan_step e) pre w)))
                        = alerts (fold (scan_step e) pre w)
                          @ [alert_row r (item_context i) title message w]))))"
proof (intro conjI impI)
  show "\<forall>x\<in>set (drop (length (dispatch_log w)) (dispatch_log (snd (checkInventoryLevels e w)))).
      \<exists>j\<in>set (inventoryItems w). item_isActive j \<and> item_quantity j \<le> item_lowStockThreshold j
           \<and> x = (item_workspaceId j, INVENTORY_LOW, item_context j)
           \<and> \<not> (\<exists>a\<in>set (alerts w). recent_alert_where e w j a)"
    using inventory_dispatch_only_if[of _ w e] by blast
next
  show "recent_alert_where e w i a \<longleftrightarrow>
        alert_workspaceId a = item_workspaceId i \<and> alert_type a = JStr ''LOW_INVENTORY''
        \<and> addDays e (now w) (- 1) \<le> alert_createdAt a
        \<and> (\<exists>m. alert_message a = JStr m \<and> sublist (item_name i) m)"
    by (rule recent_alert_where_iff)
next
  assume "addDays e (now w) (- 1) = now w - 86400000"
  then show "recent_alert_where e w i a \<longleftrightarrow>
           alert_workspaceId a = item_workspaceId i \<and> alert_type a = JStr ''LOW_INVENTORY''
           \<and> now w - 86400000 \<le> alert_createdAt a
           \<and> (\<exists>m. alert_message a = JStr m \<and> sublist (item_name i) m)"
    by (simp add: recent_alert_where_iff)
next
  assume "\<forall>j\<in>set (inventoryItems w). item_isActive j \<and> item_quantity j \<le> item_lowStockThreshold j
             \<longrightarrow> (\<exists>a\<in>set (alerts w). recent_alert_where e w j a)"
  then have both: "alerts (snd (checkInventoryLevels e w)) = alerts w
         \<and> dispatch_log (snd (checkInventoryLevels e w)) = dispatch_log w"
    by (rule inventory_all_recent)
  show "alerts (snd (checkInventoryLevels e w)) = alerts w" using both by simp
  show "dispatch_log (snd (checkInventoryLevels e w)) = dispatch_log w" using both by simp
next
  show "scan_step e i w
       = (if \<exists>a\<in>set (alerts w). recent_alert_where e w i a then w
          else snd (triggerAutomation e (item_workspaceId i) INVENTORY_LOW (item_context i) w))"
    by (simp add: scan_step_def)
next
  assume db: "\<not> db_fails e FindLowStockItems
        \<and> (\<forall>j\<in>set (inventoryItems w). \<not> db_fails e (FindRecentAlert j))"
  have low: "filter (\<lambda>j. item_isActive j \<and> item_quantity j \<le> item_lowStockThreshold j) (inventoryItems w)
             = lowStockItems w"
    by (simp add: lowStockItems_def)
  show "checkInventoryLevels e w
       = (None, fold (scan_step e)
                  (filter (\<lambda>j. item_isActive j \<and> item_quantity j \<le> item_lowStockThreshold j)
                     (inventoryItems w)) w)"
    unfolding low using db by (intro checkInventoryLevels_fold) simp_all
  let ?v = "fold (scan_step e) pre w"
  let ?t = "snd (triggerAutomation e (item_workspaceId i) INVENTORY_LOW (item_context i) ?v)"
  assume "filter (\<lambda>j. item_isActive j \<and> item_quantity j \<le> item_lowStockThreshold j)
             (inventoryItems w) = pre @ i # post"
  then have turn: "snd (checkInventoryLevels e w) = fold (scan_step e) post (scan_step e i ?v)"
    unfolding low using db by (intro inventory_item_turn) simp_all
  {
    assume "\<exists>a\<in>set (alerts ?v). recent_alert_where e ?v i a"
    then show "snd (checkInventoryLevels e w) = fold (scan_step e) post ?v"
      using turn by (simp add: scan_step_def)
  }
  assume none: "\<not> (\<exists>a\<in>set (alerts ?v). recent_alert_where e ?v i a)"
  then show "snd (checkInventoryLevels e w) = fold (scan_step e) post ?t"
    using turn by (simp add: scan_step_def)
  show "dispatch_log ?t = dispatch_log ?v @ [(item_workspaceId i, INVENTORY_LOW, item_context i)]"
    by (rule triggerAutomation_dispatch_log)
  assume b: "\<not> db_fails e (FindAutomations (item_workspaceId i) INVENTORY_LOW)
                   \<and> filter (\<lambda>r. rule_workspaceId r = item_workspaceId i \<and> rule_trigger r = INVENTORY_LOW
                                  \<and> rule_isActive r) (automations w) = [r]
                   \<and> rule_action r = CREATE_ALERT
                   \<and> replaceVariables (js_get (rule_config r) ''title'') (item_context i) = Inr title
                   \<and> replaceVariables (js_get (rule_config r) ''message'') (item_context i) = Inr message
                   \<and> \<not> db_fails e (CreateAlert (alert_row r (item_context i) title message w))"
  show "alerts ?t = alerts ?v @ [alert_row r (item_context i) title message w]"
    using b scan_fold_frame[of e pre w] by (intro item_turn_single_alert_rule) simp_all
qed

text \<open>
  The theorem of C9 at an item with quantity zero, alone in the table, on a server whose
  days are 24 hours long: with a matching alert created two hours ago the scan adds no
  alert, with one created 25 hours ago it adds exactly one.
\<close>

lemma render_gloves:
  "replaceVariables (JStr ''{{itemName}} low'') (item_context gloves) = Inr (JStr ''Gloves low'')"
  "replaceVariables (JStr ''{{itemName}}: only {{quantity}} left'') (item_context gloves)
   = Inr (JStr ''Gloves: only  left'')"
  by (simp_all add: replaceVariables_def replace_step_def object_keys_def js_get_def js_or_def
      placeholder_def replace_g.simps(2) item_context_def gloves_def string_of_nat.simps)

lemma gloves_alert_age:
  "recent_alert_where env_ok (world_gloves age) gloves (alert_gloves (1767312000000 - age))
   \<longleftrightarrow> age \<le> 86400000"
  by (auto simp: recent_alert_where_def world_gloves_def world0_def gloves_def alert_gloves_def
      env_ok_def sublist_code)

theorem low_inventory_dedup_in_turn_witness:
  "recent_alert_where env_ok (world_gloves (2 * 3600000)) gloves (alert_gloves (1767312000000 - 2 * 3600000))
   \<and> alerts (snd (checkInventoryLevels env_ok (world_gloves (2 * 3600000))))
     = alerts (world_gloves (2 * 3600000))
   \<and> \<not> recent_alert_where env_ok (world_gloves (25 * 3600000)) gloves (alert_gloves (1767312000000 - 25 * 3600000))
   \<and> alerts (snd (checkInventoryLevels env_ok (world_gloves (25 * 3600000))))
     = alerts (world_gloves (25 * 3600000)) @
       [\<lparr>alert_workspaceId = ''W1'', alert_type = JStr ''LOW_INVENTORY'',
         alert_priority = JStr ''MEDIUM'', alert_title = JStr ''Gloves low'',
         alert_message = JStr ''Gloves: only  left'', alert_linkTo = JStr ''/inventory/i1'',
         alert_isRead = False, alert_createdAt = 1767312000000\<rparr>]"
proof -
  let ?r = "rule_alert ''r1'' ''W1'' INVENTORY_LOW True"
  have items: "inventoryItems (world_gloves age) = [gloves]"
    and rules: "automations (world_gloves age) = [?r]"
    and al: "alerts (world_gloves age) = [alert_gloves (1767312000000 - age)]" for age
    by (simp_all add: world_gloves_def world0_def)
  have low: "item_isActive gloves \<and> item_quantity gloves \<le> item_lowStockThreshold gloves"
    and wid: "item_workspaceId gloves = ''W1''"
    by (simp_all add: gloves_def)
  have recent: "recent_alert_where env_ok (world_gloves (2 * 3600000)) gloves (alert_gloves (1767312000000 - 2 * 3600000))"
    using gloves_alert_age[of "2 * 3600000"] by simp
  have old: "\<not> recent_alert_where env_ok (world_gloves (25 * 3600000)) gloves (alert_gloves (1767312000000 - 25 * 3600000))"
    using gloves_alert_age[of "25 * 3600000"] by simp
  let ?u = "world_gloves (2 * 3600000)"
  have h1: "\<forall>j\<in>set (inventoryItems ?u).
              item_isActive j \<and> item_quantity j \<le> item_lowStockThreshold j
             \<longrightarrow> (\<exists>a\<in>set (alerts ?u). recent_alert_where env_ok ?u j a)"
    unfolding items al using recent by simp
  note skip = low_inventory_dedup_in_turn[where w="?u" and e=env_ok,
      THEN conjunct2, THEN conjunct2, THEN conjunct2, THEN conjunct1, THEN mp, OF h1, THEN conjunct1]
  let ?w = "world_gloves (25 * 3600000)"
  have db: "\<not> db_fails env_ok FindLowStockItems
            \<and> (\<forall>j\<in>set (inventoryItems ?w). \<not> db_fails env_ok (FindRecentAlert j))"
    by (simp add: env_ok_def)
  have f1: "filter (\<lambda>j. item_isActive j \<and> item_quantity j \<le> item_lowStockThreshold j) (inventoryItems ?w)
            = [] @ gloves # []"
    unfolding items using low by simp
  have f2: "\<not> (\<exists>a\<in>set (alerts (fold (scan_step env_ok) [] ?w)).
                 recent_alert_where env_ok (fold (scan_step env_ok) [] ?w) gloves a)"
    using old by (simp add: al)
  have f4: "filter (\<lambda>r. rule_workspaceId r = item_workspaceId gloves \<and> rule_trigger r = INVENTORY_LOW
                              \<and> rule_isActive r) (automations ?w) = [?r]"
    unfolding rules wid by (simp add: rule_alert_def)
  have f5: "rule_action ?r = CREATE_ALERT" by (simp add: rule_alert_def)
  have f6: "replaceVariables (js_get (rule_config ?r) ''title'') (item_context gloves) = Inr (JStr ''Gloves low'')"
    using render_gloves(1) by (simp add: rule_alert_def js_get_def)
  have f7: "replaceVariables (js_get (rule_config ?r) ''message'') (item_context gloves) = Inr (JStr ''Gloves: only  left'')"
    using render_gloves(2) by (simp add: rule_alert_def js_get_def)
  have f8: "\<not> db_fails env_ok (FindAutomations (item_workspaceId gloves) INVENTORY_LOW)
            \<and> \<not> db_fails env_ok (CreateAlert (alert_row ?r (item_context gloves) (JStr ''Gloves low'') (JStr ''Gloves: only  left'') ?w))"
    by (simp add: env_ok_def)
  have row: "alert_row ?r (item_context gloves) (JStr ''Gloves low'') (JStr ''Gloves: only  left'') ?w
      = \<lparr>alert_workspaceId = ''W1'', alert_type = JStr ''LOW_INVENTORY'',
         alert_priority = JStr ''MEDIUM'', alert_title = JStr ''Gloves low'',
         alert_message = JStr ''Gloves: only  left'', alert_linkTo = JStr ''/inventory/i1'',
         alert_isRead = False, alert_createdAt = 1767312000000\<rparr>"
    by (simp add: alert_row_def rule_alert_def js_get_def js_or_def item_context_def gloves_def
        world_gloves_def world0_def)
  note turn = low_inventory_dedup_in_turn[where w="?w" and e=env_ok and i=gloves and pre="[]" and post="[]"
        and r="?r" and title="JStr ''Gloves low''" and message="JStr ''Gloves: only  left''",
      THEN conjunct2, THEN conjunct2, THEN conjunct2, THEN conjunct2, THEN conjunct2,
      THEN mp, OF db, THEN conjunct2, THEN mp, OF f1, THEN conjunct2, THEN mp, OF f2]
  have run: "snd (checkInventoryLevels env_ok ?w)
      = snd (triggerAutomation env_ok (item_workspaceId gloves) INVENTORY_LOW (item_context gloves) ?w)"
    using turn[THEN conjunct1] by simp
  have "alerts (snd (triggerAutomation env_ok (item_workspaceId gloves) INVENTORY_LOW (item_context gloves) ?w))
        = alerts ?w @ [alert_row ?r (item_context gloves) (JStr ''Gloves low'') (JStr ''Gloves: only  left'') ?w]"
    using turn[THEN conjunct2, THEN conjunct2] f4 f5 f6 f7 f8 by simp
  then have "alerts (snd (checkInventoryLevels env_ok ?w))
        = alerts ?w @ [\<lparr>alert_workspaceId = ''W1'', alert_type = JStr ''LOW_INVENTORY'',
         alert_priority = JStr ''MEDIUM'', alert_title = JStr ''Gloves low'',
         alert_message = JStr ''Gloves: only  left'', alert_linkTo = JStr ''/inventory/i1'',
         alert_isRead = False, alert_createdAt = 1767312000000\<rparr>]"
    unfolding run row .
  then show ?thesis
    using recent old skip by blast
qed

text \<open>
  Claim C9 as it is written fails. Two items are low, and the name of the second is
  part of the name of the first; the only alert about the second is 25 hours old. The
  scan dispatches for the first item, the alert this creates names the first item and
  so contains the name of the second, and the second item is passed over: no dispatch
  and no alert for it, where the claim has exactly one.
\<close>

lemma render_gloves_xl:
  "replaceVariables (JStr ''{{itemName}} low'') (item_context gloves_xl) = Inr (JStr ''Gloves XL low'')"
  "replaceVariables (JStr ''{{itemName}}: only {{quantity}} left'') (item_context gloves_xl)
   = Inr (JStr ''Gloves XL: only 2 left'')"
  by (simp_all add: replaceVariables_def replace_step_def object_keys_def js_get_def js_or_def
      placeholder_def replace_g.simps(2) item_context_def gloves_xl_def string_of_nat.simps)

theorem low_inventory_second_item_counterexample:
  "gloves \<in> set (inventoryItems world_two_gloves)
   \<and> item_isActive gloves \<and> item_quantity gloves \<le> item_lowStockThreshold gloves
   \<and> alerts world_two_gloves = [alert_gloves (1767312000000 - 25 * 3600000)]
   \<and> \<not> recent_alert_where env_ok world_two_gloves gloves (alert_gloves (1767312000000 - 25 * 3600000))
   \<and> dispatch_log (snd (checkInventoryLevels env_ok world_two_gloves))
     = [(''W1'', INVENTORY_LOW, item_context gloves_xl)]
   \<and> alerts (snd (checkInventoryLevels env_ok world_two_gloves))
     = [alert_gloves (1767312000000 - 25 * 3600000),
        \<lparr>alert_workspaceId = ''W1'', alert_type = JStr ''LOW_INVENTORY'',
         alert_priority = JStr ''MEDIUM'', alert_title = JStr ''Gloves XL low'',
         alert_message = JStr ''Gloves XL: only 2 left'', alert_linkTo = JStr ''/inventory/i2'',
         alert_isRead = False, alert_createdAt = 1767312000000\<rparr>]"
proof -
  let ?w = "world_two_gloves"
  let ?r = "rule_alert ''r1'' ''W1'' INVENTORY_LOW True"
  let ?old = "alert_gloves (1767312000000 - 25 * 3600000)"
  let ?new = "\<lparr>alert_workspaceId = ''W1'', alert_type = JStr ''LOW_INVENTORY'',
         alert_priority = JStr ''MEDIUM'', alert_title = JStr ''Gloves XL low'',
         alert_message = JStr ''Gloves XL: only 2 left'', alert_linkTo = JStr ''/inventory/i2'',
         alert_isRead = False, alert_createdAt = 1767312000000\<rparr>"
  let ?v = "snd (triggerAutomation env_ok (item_workspaceId gloves_xl) INVENTORY_LOW (item_context gloves_xl) ?w)"
  have items: "inventoryItems ?w = [gloves_xl, gloves]" and rules: "automations ?w = [?r]"
    and al: "alerts ?w = [?old]" and nw: "now ?w = 1767312000000" and dl: "dispatch_log ?w = []"
    by (simp_all add: world_two_gloves_def world0_def)
  have low: "lowStockItems ?w = [gloves_xl, gloves]"
    unfolding lowStockItems_def items by (simp add: gloves_def gloves_xl_def)
  have lowg: "item_isActive gloves \<and> item_quantity gloves \<le> item_lowStockThreshold gloves"
    and wid: "item_workspaceId gloves_xl = ''W1''"
    by (simp_all add: gloves_def gloves_xl_def)
  have old_xl: "\<not> recent_alert_where env_ok ?w gloves_xl ?old"
    and old_g: "\<not> recent_alert_where env_ok ?w gloves ?old"
    unfolding recent_alert_where_def nw
    by (simp_all add: env_ok_def alert_gloves_def)
  have db: "\<not> db_fails env_ok FindLowStockItems"
    "\<forall>i\<in>set (inventoryItems ?w). \<not> db_fails env_ok (FindRecentAlert i)"
    by (simp_all add: env_ok_def)
  have scan: "snd (checkInventoryLevels env_ok ?w) = scan_step env_ok gloves (scan_step env_ok gloves_xl ?w)"
    unfolding checkInventoryLevels_fold[OF db] low by simp
  have s1: "scan_step env_ok gloves_xl ?w = ?v"
    unfolding scan_step_def al using old_xl by simp
  have f4: "filter (\<lambda>r. rule_workspaceId r = item_workspaceId gloves_xl \<and> rule_trigger r = INVENTORY_LOW
                              \<and> rule_isActive r) (automations ?w) = [?r]"
    unfolding rules wid by (simp add: rule_alert_def)
  have f5: "rule_action ?r = CREATE_ALERT" by (simp add: rule_alert_def)
  have f6: "replaceVariables (js_get (rule_config ?r) ''title'') (item_context gloves_xl) = Inr (JStr ''Gloves XL low'')"
    using render_gloves_xl(1) by (simp add: rule_alert_def js_get_def)
  have f7: "replaceVariables (js_get (rule_config ?r) ''message'') (item_context gloves_xl)
            = Inr (JStr ''Gloves XL: only 2 left'')"
    using render_gloves_xl(2) by (simp add: rule_alert_def js_get_def)
  have f8: "\<not> db_fails env_ok (FindAutomations (item_workspaceId gloves_xl) INVENTORY_LOW)"
    and f9: "\<not> db_fails env_ok (CreateAlert (alert_row ?r (item_context gloves_xl) (JStr ''Gloves XL low'')
                 (JStr ''Gloves XL: only 2 left'') ?w))"
    by (simp_all add: env_ok_def)
  have row: "alert_row ?r (item_context gloves_xl) (JStr ''Gloves XL low'') (JStr ''Gloves XL: only 2 left'') ?w
             = ?new"
    unfolding alert_row_def nw
    by (simp add: rule_alert_def js_get_def js_or_def item_context_def gloves_xl_def)
  have av: "alerts ?v = [?old, ?new]"
    using item_turn_single_alert_rule[OF f8 f4 f5 f6 f7 f9 refl refl] unfolding row al by simp
  have nv: "now ?v = 1767312000000"
    using triggerAutomation_same_tables[of ?w env_ok "item_workspaceId gloves_xl" INVENTORY_LOW "item_context gloves_xl"]
    by (simp add: same_tables_def nw)
  have dv: "dispatch_log ?v = [(''W1'', INVENTORY_LOW, item_context gloves_xl)]"
    unfolding triggerAutomation_dispatch_log dl wid by simp
  have hidden: "recent_alert_where env_ok ?v gloves ?new"
    unfolding recent_alert_where_def nv
    by (simp add: env_ok_def gloves_def sublist_code)
  have s2: "scan_step env_ok gloves ?v = ?v"
    unfolding scan_step_def av using hidden by simp
  have fin: "snd (checkInventoryLevels env_ok ?w) = ?v"
    unfolding scan s1 s2 ..
  have "gloves \<in> set (inventoryItems ?w)" unfolding items by simp
  then show ?thesis
    unfolding fin av dv using lowg al old_g by simp
qed

end
